theory Spec2Isabelle
  imports Main
begin

section \<open>Data model\<close>

text \<open>
  The program is \<^verbatim>\<open>old quizzes/index.js\<close>: an Express handler that drives a remote quiz
  service. Identifiers (quiz, question, topic and unit ids) are kept as the text that the
  source's template literals render. The credential \<^verbatim>\<open>ACCESS_TOKEN\<close> is a string or
  \<^verbatim>\<open>undefined\<close> (it starts as \<^verbatim>\<open>process.env.ACCESS_TOKEN\<close>).
\<close>

type_synonym token = "string option"

datatype error = Error (name: string) (message: string)

text \<open>\<^verbatim>\<open>`${error}`\<close> is \<^verbatim>\<open>Error.prototype.toString\<close>.\<close>

definition error_toString :: "error \<Rightarrow> string" where
  "error_toString e =
     (if name e = [] then message e
      else if message e = [] then name e
      else name e @ '': '' @ message e)"

record question =
  question_questionId :: string
  question_question :: string
  question_options :: "(string \<times> string) list"
    \<comment> \<open>what \<^verbatim>\<open>Object.entries(question.options)\<close> enumerates, in its order\<close>

record payload =
  payload_quizId :: string
  payload_questions :: "question list"

record raw_topic =
  raw_id :: string
  raw_name :: string
  raw_contentFlag :: bool

record topic =
  topic_topicId :: string
  topic_topicName :: string

text \<open>
  The collaborators of the program: the five endpoints of the remote service and
  \<^verbatim>\<open>fs.writeFile\<close>. Each takes the state \<open>'r\<close> of the outside world and returns an outcome
  (\<open>Inl\<close> is the rejection \<^verbatim>\<open>axios\<close> or \<^verbatim>\<open>fs\<close> throws) and the new state. The first
  argument of an endpoint is the \<^verbatim>\<open>Authorization\<close> header.
\<close>

record 'r service =
  save_user_quiz_answer ::
    "token \<Rightarrow> string \<Rightarrow> string \<Rightarrow> string option \<Rightarrow> 'r \<Rightarrow> (error + unit) \<times> 'r"
  submit_quiz :: "token \<Rightarrow> string \<Rightarrow> 'r \<Rightarrow> (error + int) \<times> 'r"
  create_quiz :: "token \<Rightarrow> string \<Rightarrow> 'r \<Rightarrow> (error + payload) \<times> 'r"
  get_topics_unit :: "token \<Rightarrow> string \<Rightarrow> 'r \<Rightarrow> (error + raw_topic list) \<times> 'r"
  quiz_result :: "token \<Rightarrow> string \<Rightarrow> 'r \<Rightarrow> (error + int) \<times> 'r"
  writeFile :: "string \<Rightarrow> string \<Rightarrow> 'r \<Rightarrow> (error + unit) \<times> 'r"

text \<open>
  The lines the program prints, one constructor for each \<^verbatim>\<open>console.log\<close> and
  \<^verbatim>\<open>console.error\<close> of the source, and the text each one is.
\<close>

datatype line =
    Error_submitting string
  | Error_attempting string string
  | Option_locked "string option" string
  | Stopping_attempts string string
  | Questions_saved string
  | Error_creating string error
  | Error_fetching_topics string error
  | Error_fetching_result string error
  | Topic_line string string
  | Already_done string
  | Solving string
  | Finished string
  | Blank

definition template :: "string option \<Rightarrow> string" where
  "template v = (case v of None \<Rightarrow> ''undefined'' | Some s \<Rightarrow> s)"

fun text_of :: "line \<Rightarrow> string" where
  "text_of (Error_submitting quizId) = ''Error submitting quiz '' @ quizId @ '':''"
| "text_of (Error_attempting quizId questionId) =
     ''Error attempting quiz '' @ quizId @ '', question '' @ questionId @ '':''"
| "text_of (Option_locked option questionId) =
     ''Option '' @ template option @ '' locked for question '' @ questionId"
| "text_of (Stopping_attempts quizId questionId) =
     ''Error with quiz '' @ quizId @ '', question '' @ questionId @ '', stopping attempts.''"
| "text_of (Questions_saved file) = ''Quiz questions saved to '' @ file"
| "text_of (Error_creating quizId error) =
     ''Error creating quiz '' @ quizId @ '': '' @ error_toString error"
| "text_of (Error_fetching_topics unitId error) =
     ''Error fetching topics for unit '' @ unitId @ '': '' @ error_toString error"
| "text_of (Error_fetching_result topicId error) =
     ''Error fetching quiz result for topic '' @ topicId @ '': '' @ error_toString error"
| "text_of (Topic_line topicId topicName) = topicId @ '': '' @ topicName"
| "text_of (Already_done topicId) = ''Quiz with id '' @ topicId @ '' is already done!''"
| "text_of (Solving topicId) = ''Solving quiz '' @ topicId"
| "text_of (Finished topicId) = ''Quiz '' @ topicId @ '' is finished.''"
| "text_of Blank = []"

text \<open>Everything the program does to the outside, in the order it does it.\<close>

datatype event =
    SaveUserQuizAnswer token string string "string option" "error + unit"
  | SubmitQuiz token string "error + int"
  | CreateQuiz token string "error + payload"
  | GetTopicsUnit token string "error + raw_topic list"
  | QuizResult token string "error + int"
  | WriteFile string string "error + unit"
  | ConsoleLog line
  | ConsoleError line error

record 'r world =
  ACCESS_TOKEN :: token
  logs :: "string list"
  outside :: 'r
  trace :: "event list"

definition emit :: "event \<Rightarrow> 'r world \<Rightarrow> 'r world" where
  "emit e w = w\<lparr>trace := trace w @ [e]\<rparr>"

definition console_log :: "line \<Rightarrow> 'r world \<Rightarrow> 'r world" where
  "console_log s w = emit (ConsoleLog s) w"

definition console_error :: "line \<Rightarrow> error \<Rightarrow> 'r world \<Rightarrow> 'r world" where
  "console_error s e w = emit (ConsoleError s e) w"

abbreviation NL :: char where
  "NL \<equiv> CHR 0x0A"

section \<open>Remote client\<close>

definition getScore :: "'r service \<Rightarrow> string \<Rightarrow> 'r world \<Rightarrow> (error + int) \<times> 'r world" where
  "getScore sv quizId w =
     (case submit_quiz sv (ACCESS_TOKEN w) quizId (outside w) of
        (response, r) \<Rightarrow>
          (let w1 = emit (SubmitQuiz (ACCESS_TOKEN w) quizId response) (w\<lparr>outside := r\<rparr>) in
           case response of
             Inr score \<Rightarrow> (Inr score, w1)
           | Inl error \<Rightarrow>
               (Inl error, console_error (Error_submitting quizId) error w1)))"

definition attemptQuizApi ::
  "'r service \<Rightarrow> string \<Rightarrow> string \<Rightarrow> string option \<Rightarrow> 'r world \<Rightarrow> (error + int) \<times> 'r world"
where
  "attemptQuizApi sv quizId questionId userAnswer w =
     (case save_user_quiz_answer sv (ACCESS_TOKEN w) quizId questionId userAnswer (outside w) of
        (response, r) \<Rightarrow>
          (let w1 = emit (SaveUserQuizAnswer (ACCESS_TOKEN w) quizId questionId userAnswer response)
                      (w\<lparr>outside := r\<rparr>);
               rethrow = (\<lambda>error. console_error (Error_attempting quizId questionId) error)
           in
           case response of
             Inl error \<Rightarrow> (Inl error, rethrow error w1)
           | Inr _ \<Rightarrow>
               (case getScore sv quizId w1 of
                  (Inr score, w2) \<Rightarrow> (Inr score, w2)
                | (Inl error, w2) \<Rightarrow> (Inl error, rethrow error w2))))"

section \<open>Answer prober\<close>

text \<open>
  \<^verbatim>\<open>options[i]\<close>: reading a JavaScript array past its end gives \<^verbatim>\<open>undefined\<close>, here
  \<open>None\<close>.
\<close>

definition options :: "string list" where
  "options = [''a'', ''b'', ''c'', ''d'']"

definition nth_opt :: "'a list \<Rightarrow> nat \<Rightarrow> 'a option" where
  "nth_opt xs i = (if i < length xs then Some (xs ! i) else None)"

text \<open>
  \<^verbatim>\<open>correctOption\<close> starts as \<^verbatim>\<open>null\<close> and is overwritten by \<^verbatim>\<open>options[i]\<close>, which
  may be \<^verbatim>\<open>undefined\<close>.
\<close>

datatype correct_option = Null | Captured "string option"

text \<open>
  The \<^verbatim>\<open>while\<close> loop of \<^verbatim>\<open>attemptQuiz\<close> over its variables \<^verbatim>\<open>score\<close>, \<^verbatim>\<open>i\<close> and
  \<^verbatim>\<open>correctOption\<close>. The source bounds it only by its condition, so the loop may not
  return: that is the value \<open>None\<close>.
\<close>

partial_function (option) attemptQuiz_while ::
  "'r service \<Rightarrow> string \<Rightarrow> string \<Rightarrow> int \<Rightarrow> int \<Rightarrow> nat \<Rightarrow> correct_option \<Rightarrow> 'r world
    \<Rightarrow> ((int \<times> correct_option) \<times> 'r world) option"
where
  "attemptQuiz_while sv quizId questionId currentScore score i correctOption w =
     (if score \<noteq> currentScore + 1 then
        (case attemptQuizApi sv quizId questionId (nth_opt options i) w of
           (Inr score', w1) \<Rightarrow>
             if score' = currentScore + 1 then
               attemptQuiz_while sv quizId questionId currentScore score' (i + 1)
                 (Captured (nth_opt options i))
                 (console_log (Option_locked (nth_opt options i) questionId) w1)
             else
               attemptQuiz_while sv quizId questionId currentScore score' (i + 1) correctOption w1
         | (Inl error, w1) \<Rightarrow>
             Some ((score, correctOption), console_log (Stopping_attempts quizId questionId) w1))
      else Some ((score, correctOption), w))"

definition attemptQuiz ::
  "'r service \<Rightarrow> string \<Rightarrow> string \<Rightarrow> int \<Rightarrow> 'r world \<Rightarrow> ((int \<times> correct_option) \<times> 'r world) option"
where
  "attemptQuiz sv quizId questionId currentScore w =
     attemptQuiz_while sv quizId questionId currentScore currentScore 0 Null w"

section \<open>Quiz runner\<close>

text \<open>
  \<^verbatim>\<open>result.correctOption || 'Not locked'\<close>: \<^verbatim>\<open>null\<close>, \<^verbatim>\<open>undefined\<close> and the empty
  string are falsy.
\<close>

definition or_not_locked :: "correct_option \<Rightarrow> string" where
  "or_not_locked correctOption =
     (case correctOption of
        Null \<Rightarrow> ''Not locked''
      | Captured None \<Rightarrow> ''Not locked''
      | Captured (Some s) \<Rightarrow> (if s = [] then ''Not locked'' else s))"

text \<open>
  The \<^verbatim>\<open>for (const question of data.payload.questions)\<close> loop of
  \<^verbatim>\<open>attemptOneQuiz\<close> over its variables \<^verbatim>\<open>currentScore\<close> and \<^verbatim>\<open>content\<close>.
\<close>

fun questions_for ::
  "'r service \<Rightarrow> string \<Rightarrow> question list \<Rightarrow> int \<Rightarrow> string \<Rightarrow> 'r world
    \<Rightarrow> ((int \<times> string) \<times> 'r world) option"
where
  "questions_for sv quiz_Id [] currentScore content w = Some ((currentScore, content), w)"
| "questions_for sv quiz_Id (question # rest) currentScore content w =
     (let content1 = content @ ''Question ID: '' @ question_questionId question @ [NL];
          content2 = content1 @ ''Question: '' @ question_question question @ [NL];
          content3 = content2 @ ''Options:'' @ [NL];
          content4 = foldl (\<lambda>c (key, val). c @ key @ '': '' @ val @ [NL]) content3
                       (question_options question)
      in
      case attemptQuiz sv quiz_Id (question_questionId question) currentScore w of
        None \<Rightarrow> None
      | Some ((score, correctOption), w1) \<Rightarrow>
          questions_for sv quiz_Id rest score
            (content4 @ ''Correct Option: '' @ or_not_locked correctOption @ [NL, NL]) w1)"

text \<open>
  \<^verbatim>\<open>topicName.replace(/[^a-z0-9]/gi, '_').toLowerCase()\<close>, character by character. A
  character of a \<^typ>\<open>string\<close> stands for one code unit of the source's string, so the names
  covered are those whose code units are below 256; after the replacement only the letters
  \<^verbatim>\<open>A\<close> to \<^verbatim>\<open>Z\<close> are left to lower.
\<close>

definition is_alnum :: "char \<Rightarrow> bool" where
  "is_alnum c =
     (c \<in> set ''abcdefghijklmnopqrstuvwxyz'' \<or> c \<in> set ''ABCDEFGHIJKLMNOPQRSTUVWXYZ''
      \<or> c \<in> set ''0123456789'')"

definition toLowerCase :: "char \<Rightarrow> char" where
  "toLowerCase c =
     (case map_of (zip ''ABCDEFGHIJKLMNOPQRSTUVWXYZ'' ''abcdefghijklmnopqrstuvwxyz'') c of
        None \<Rightarrow> c
      | Some l \<Rightarrow> l)"

definition sanitize :: "string \<Rightarrow> string" where
  "sanitize topicName =
     map toLowerCase (map (\<lambda>c. if is_alnum c then c else CHR ''_'') topicName)"

definition attemptOneQuiz ::
  "'r service \<Rightarrow> string \<Rightarrow> string \<Rightarrow> 'r world \<Rightarrow> ((error + string \<times> int) \<times> 'r world) option"
where
  "attemptOneQuiz sv quizId topicName w =
     (case create_quiz sv (ACCESS_TOKEN w) quizId (outside w) of
        (response, r) \<Rightarrow>
          (let w1 = emit (CreateQuiz (ACCESS_TOKEN w) quizId response) (w\<lparr>outside := r\<rparr>);
               rethrow = (\<lambda>error w'. (Inl error, console_log (Error_creating quizId error) w'))
           in
           case response of
             Inl error \<Rightarrow> Some (rethrow error w1)
           | Inr data \<Rightarrow>
               (case questions_for sv (payload_quizId data) (payload_questions data) 0 [] w1 of
                  None \<Rightarrow> None
                | Some ((currentScore, content), w2) \<Rightarrow>
                    (let sanitizedTopicName = sanitize topicName;
                         file = sanitizedTopicName @ ''.txt''
                     in
                     case writeFile sv file content (outside w2) of
                       (written, r') \<Rightarrow>
                         (let w3 = emit (WriteFile file content written) (w2\<lparr>outside := r'\<rparr>) in
                          case written of
                            Inl error \<Rightarrow> Some (rethrow error w3)
                          | Inr _ \<Rightarrow>
                              Some (Inr (payload_quizId data, currentScore),
                                console_log (Questions_saved file) w3))))))"

section \<open>Unit orchestrator\<close>

definition getUnitTopics ::
  "'r service \<Rightarrow> string \<Rightarrow> 'r world \<Rightarrow> (error + topic list) \<times> 'r world"
where
  "getUnitTopics sv unitId w =
     (case get_topics_unit sv (ACCESS_TOKEN w) unitId (outside w) of
        (response, r) \<Rightarrow>
          (let w1 = emit (GetTopicsUnit (ACCESS_TOKEN w) unitId response) (w\<lparr>outside := r\<rparr>) in
           case response of
             Inr topics \<Rightarrow>
               (Inr (map (\<lambda>topic. \<lparr>topic_topicId = raw_id topic, topic_topicName = raw_name topic\<rparr>)
                      (filter raw_contentFlag topics)), w1)
           | Inl error \<Rightarrow>
               (Inl error, console_log (Error_fetching_topics unitId error) w1)))"

definition resultQuiz :: "'r service \<Rightarrow> string \<Rightarrow> 'r world \<Rightarrow> (error + bool) \<times> 'r world" where
  "resultQuiz sv topicId w =
     (case quiz_result sv (ACCESS_TOKEN w) topicId (outside w) of
        (response, r) \<Rightarrow>
          (let w1 = emit (QuizResult (ACCESS_TOKEN w) topicId response) (w\<lparr>outside := r\<rparr>) in
           case response of
             Inr badge \<Rightarrow> (Inr (badge = 1), w1)
           | Inl error \<Rightarrow>
               (Inl error, console_log (Error_fetching_result topicId error) w1)))"

text \<open>\<^verbatim>\<open>unitId.split(' ')\<close>.\<close>

fun split :: "char \<Rightarrow> string \<Rightarrow> string list" where
  "split sep [] = [[]]"
| "split sep (c # cs) =
     (if c = sep then [] # split sep cs
      else (case split sep cs of [] \<Rightarrow> [[c]] | x # xs \<Rightarrow> (c # x) # xs))"

text \<open>The first inner loop of the handler prints the topics of the unit.\<close>

definition print_topics :: "topic list \<Rightarrow> 'r world \<Rightarrow> 'r world" where
  "print_topics topics w =
     foldl (\<lambda>w' topic. console_log (Topic_line (topic_topicId topic) (topic_topicName topic)) w')
       w topics"

text \<open>
  The second inner loop. A rejection leaves it at once: the only \<^verbatim>\<open>try\<close> of the
  handler is around the loop over the units.
\<close>

fun topics_for ::
  "'r service \<Rightarrow> topic list \<Rightarrow> 'r world \<Rightarrow> ((error + unit) \<times> 'r world) option"
where
  "topics_for sv [] w = Some (Inr (), w)"
| "topics_for sv (topic # rest) w =
     (case resultQuiz sv (topic_topicId topic) w of
        (Inl error, w1) \<Rightarrow> Some (Inl error, w1)
      | (Inr done, w1) \<Rightarrow>
          if done then
            topics_for sv rest (console_log (Already_done (topic_topicId topic)) w1)
          else
            (case attemptOneQuiz sv (topic_topicId topic) (topic_topicName topic)
                    (console_log (Solving (topic_topicId topic)) w1) of
               None \<Rightarrow> None
             | Some (Inl error, w2) \<Rightarrow> Some (Inl error, w2)
             | Some (Inr _, w2) \<Rightarrow>
                 topics_for sv rest
                   (console_log Blank (console_log (Finished (topic_topicId topic)) w2))))"

fun units_for ::
  "'r service \<Rightarrow> string list \<Rightarrow> 'r world \<Rightarrow> ((error + unit) \<times> 'r world) option"
where
  "units_for sv [] w = Some (Inr (), w)"
| "units_for sv (unit # rest) w =
     (case getUnitTopics sv unit w of
        (Inl error, w1) \<Rightarrow> Some (Inl error, w1)
      | (Inr topics, w1) \<Rightarrow>
          (case topics_for sv topics (print_topics topics w1) of
             None \<Rightarrow> None
           | Some (Inl error, w2) \<Rightarrow> Some (Inl error, w2)
           | Some (Inr _, w2) \<Rightarrow> units_for sv rest w2))"

section \<open>The handler of \<^verbatim>\<open>POST /\<close>\<close>

record body =
  body_accessToken :: "string option"
  body_unitId :: "string option"

datatype json = ErrorJson string | CompleteJson "string list" string

datatype response = Response (status: nat) (json: json)

text \<open>\<^verbatim>\<open>!v\<close> for a field that is a string or absent.\<close>

definition falsy :: "string option \<Rightarrow> bool" where
  "falsy v = (v = None \<or> v = Some [])"

definition post_root :: "'r service \<Rightarrow> body \<Rightarrow> 'r world \<Rightarrow> (response \<times> 'r world) option" where
  "post_root sv req_body w =
     (let accessToken = body_accessToken req_body; unitId = body_unitId req_body in
      if falsy accessToken \<or> falsy unitId then
        Some (Response 400 (ErrorJson ''Missing accessToken or unitId in request data.''), w)
      else
        (let w0 = w\<lparr>ACCESS_TOKEN := accessToken\<rparr>;
             unitIds = (case unitId of None \<Rightarrow> [] | Some u \<Rightarrow> split CHR '' '' u)
         in
         case units_for sv unitIds w0 of
           None \<Rightarrow> None
         | Some (Inl error, w1) \<Rightarrow> Some (Response 500 (ErrorJson (message error)), w1)
         | Some (Inr _, w1) \<Rightarrow>
             Some (Response 200 (CompleteJson (logs w1) ''Processing complete''), w1)))"

section \<open>Observations on the trace\<close>

text \<open>The answers submitted, each with its quiz and question, in the order of the calls.\<close>

definition submissions :: "event list \<Rightarrow> (string \<times> string \<times> string option) list" where
  "submissions evs =
     concat (map (\<lambda>e. case e of
        SaveUserQuizAnswer tok quizId questionId userAnswer response \<Rightarrow>
          [(quizId, questionId, userAnswer)]
      | _ \<Rightarrow> []) evs)"

text \<open>The quiz attempts created: one \<^verbatim>\<open>create-quiz\<close> call opens each run of the quiz runner.\<close>

definition creations :: "event list \<Rightarrow> string list" where
  "creations evs =
     concat (map (\<lambda>e. case e of CreateQuiz tok quizId response \<Rightarrow> [quizId] | _ \<Rightarrow> []) evs)"

definition status_queries :: "event list \<Rightarrow> string list" where
  "status_queries evs =
     concat (map (\<lambda>e. case e of QuizResult tok topicId response \<Rightarrow> [topicId] | _ \<Rightarrow> []) evs)"

definition writes :: "event list \<Rightarrow> (string \<times> string) list" where
  "writes evs =
     concat (map (\<lambda>e. case e of WriteFile file content written \<Rightarrow> [(file, content)] | _ \<Rightarrow> [])
       evs)"

definition skips :: "event list \<Rightarrow> string list" where
  "skips evs =
     concat (map (\<lambda>e. case e of ConsoleLog (Already_done topicId) \<Rightarrow> [topicId] | _ \<Rightarrow> []) evs)"

text \<open>The \<^verbatim>\<open>Authorization\<close> header of every remote call.\<close>

definition tokens :: "event list \<Rightarrow> token list" where
  "tokens evs =
     concat (map (\<lambda>e. case e of
        SaveUserQuizAnswer tok quizId questionId userAnswer response \<Rightarrow> [tok]
      | SubmitQuiz tok quizId response \<Rightarrow> [tok]
      | CreateQuiz tok quizId response \<Rightarrow> [tok]
      | GetTopicsUnit tok unitId response \<Rightarrow> [tok]
      | QuizResult tok topicId response \<Rightarrow> [tok]
      | _ \<Rightarrow> []) evs)"

text \<open>The score of the last readback that was answered, \<open>d\<close> when there is none.\<close>

definition confirmed :: "int \<Rightarrow> event list \<Rightarrow> int" where
  "confirmed d evs =
     foldl (\<lambda>s e. case e of SubmitQuiz tok quizId (Inr score) \<Rightarrow> score | _ \<Rightarrow> s) d evs"

text \<open>
  The events one probe can add under the credential \<open>tok\<close>: submissions and readbacks
  carrying it, and the lines of the prober and of the remote client.
\<close>

definition probing :: "token \<Rightarrow> event \<Rightarrow> bool" where
  "probing tok e =
     (case e of
        SaveUserQuizAnswer t quizId questionId userAnswer response \<Rightarrow> t = tok
      | SubmitQuiz t quizId response \<Rightarrow> t = tok
      | ConsoleError l error \<Rightarrow> True
      | ConsoleLog (Option_locked option questionId) \<Rightarrow> True
      | ConsoleLog (Stopping_attempts quizId questionId) \<Rightarrow> True
      | _ \<Rightarrow> False)"

text \<open>
  A scenario of the prober: the \<open>n\<close> candidates from index \<open>i\<close> on are submitted in order,
  each submission and its readback is answered, and no readback is \<open>currentScore + 1\<close>.
  The value is the list of the readbacks and the world after the last of them.
\<close>

fun rejected ::
  "'r service \<Rightarrow> string \<Rightarrow> string \<Rightarrow> int \<Rightarrow> nat \<Rightarrow> nat \<Rightarrow> 'r world \<Rightarrow> (int list \<times> 'r world) option"
where
  "rejected sv quizId questionId currentScore i 0 w = Some ([], w)"
| "rejected sv quizId questionId currentScore i (Suc n) w =
     (case attemptQuizApi sv quizId questionId (nth_opt options i) w of
        (Inl error, w1) \<Rightarrow> None
      | (Inr score, w1) \<Rightarrow>
          if score = currentScore + 1 then None
          else (case rejected sv quizId questionId currentScore (Suc i) n w1 of
                  None \<Rightarrow> None
                | Some (scores, w') \<Rightarrow> Some (score # scores, w')))"

section \<open>The report as the specification describes it\<close>

text \<open>
  The lines of one block of the report: a \<^verbatim>\<open>Question ID:\<close> line, a \<^verbatim>\<open>Question:\<close>
  line, the \<^verbatim>\<open>Options:\<close> section with one \<^verbatim>\<open>key: text\<close> line for each option, and a
  \<^verbatim>\<open>Correct Option:\<close> line. In the file every line ends with a line break, and a blank
  line ends the block.
\<close>

definition block_lines :: "question \<Rightarrow> string \<Rightarrow> string list" where
  "block_lines q correct =
     [''Question ID: '' @ question_questionId q,
      ''Question: '' @ question_question q,
      ''Options:'']
     @ map (\<lambda>(key, val). key @ '': '' @ val) (question_options q)
     @ [''Correct Option: '' @ correct]"

definition report_block :: "question \<Rightarrow> string \<Rightarrow> string" where
  "report_block q correct = concat (map (\<lambda>l. l @ [NL]) (block_lines q correct @ [[]]))"

definition report :: "question list \<Rightarrow> string list \<Rightarrow> string" where
  "report qs corrects = concat (map (\<lambda>(q, correct). report_block q correct) (zip qs corrects))"

text \<open>
  Reading a file back: its lines, and its blocks, which are the maximal runs of lines that
  are not blank.
\<close>

definition lines_of :: "string \<Rightarrow> string list" where
  "lines_of content = split NL content"

fun blocks_from :: "string list \<Rightarrow> string list \<Rightarrow> string list list" where
  "blocks_from block [] = (if block = [] then [] else [block])"
| "blocks_from block (l # ls) =
     (if l = [] then (if block = [] then blocks_from [] ls else block # blocks_from [] ls)
      else blocks_from (block @ [l]) ls)"

definition blocks_of :: "string \<Rightarrow> string list list" where
  "blocks_of content = blocks_from [] (lines_of content)"

text \<open>A question none of whose texts holds a line break.\<close>

definition one_line :: "question \<Rightarrow> bool" where
  "one_line q =
     (NL \<notin> set (question_questionId q) \<and> NL \<notin> set (question_question q)
      \<and> (\<forall>(key, val) \<in> set (question_options q). NL \<notin> set key \<and> NL \<notin> set val))"

section \<open>A simulated service\<close>

text \<open>
  A remote service to run the program against. It keeps the answers saved for each
  question and counts the requests it has served. Its score is the number of questions
  whose last saved answer is the one of the answer key; the requests whose number is in
  \<open>failing\<close> are rejected. Writing a file always succeeds.
\<close>

record sim_state =
  saved :: "(string \<times> string option) list"
  served :: nat

record classroom =
  answer_key :: "(string \<times> string) list"
  failing :: "nat list"
  unit_topics :: "(string \<times> raw_topic list) list"
  badges :: "(string \<times> int) list"
  quizzes :: "(string \<times> payload) list"

definition network_error :: error where
  "network_error = Error ''AxiosError'' ''Network Error''"

definition not_found :: error where
  "not_found = Error ''AxiosError'' ''Request failed with status code 404''"

definition sim_score :: "classroom \<Rightarrow> sim_state \<Rightarrow> int" where
  "sim_score cl r =
     int (length (filter (\<lambda>(questionId, a). map_of (saved r) questionId = Some (Some a))
       (answer_key cl)))"

definition request ::
  "classroom \<Rightarrow> sim_state \<Rightarrow> (sim_state \<Rightarrow> (error + 'a) \<times> sim_state) \<Rightarrow> (error + 'a) \<times> sim_state"
where
  "request cl r respond =
     (if served r \<in> set (failing cl) then (Inl network_error, r\<lparr>served := Suc (served r)\<rparr>)
      else respond (r\<lparr>served := Suc (served r)\<rparr>))"

definition sim :: "classroom \<Rightarrow> sim_state service" where
  "sim cl =
     \<lparr>save_user_quiz_answer = (\<lambda>tok quizId questionId userAnswer r.
         request cl r (\<lambda>r'. (Inr (), r'\<lparr>saved := (questionId, userAnswer) # saved r'\<rparr>))),
      submit_quiz = (\<lambda>tok quizId r. request cl r (\<lambda>r'. (Inr (sim_score cl r'), r'))),
      create_quiz = (\<lambda>tok topicId r. request cl r (\<lambda>r'.
         (case map_of (quizzes cl) topicId of None \<Rightarrow> Inl not_found | Some p \<Rightarrow> Inr p, r'))),
      get_topics_unit = (\<lambda>tok unitId r. request cl r (\<lambda>r'.
         (case map_of (unit_topics cl) unitId of None \<Rightarrow> Inl not_found | Some ts \<Rightarrow> Inr ts, r'))),
      quiz_result = (\<lambda>tok topicId r. request cl r (\<lambda>r'.
         (case map_of (badges cl) topicId of None \<Rightarrow> Inr 0 | Some b \<Rightarrow> Inr b, r'))),
      writeFile = (\<lambda>file content r. (Inr (), r))\<rparr>"

text \<open>The process before any request: the credential of the environment, nothing done.\<close>

definition start :: "sim_state world" where
  "start =
     \<lparr>ACCESS_TOKEN = Some ''env'', logs = [], outside = \<lparr>saved = [], served = 0\<rparr>, trace = []\<rparr>"

text \<open>
  A quiz of three questions whose correct options are \<open>a\<close>, \<open>a\<close> and \<open>c\<close>, and the world in
  which the service already holds the correct answers to the first two (its score is 2)
  while the runner's \<^verbatim>\<open>currentScore\<close> is still 0: the state after the readbacks of
  both answers were rejected.
\<close>

definition quiz3 :: classroom where
  "quiz3 =
     \<lparr>answer_key = [(''q1'', ''a''), (''q2'', ''a''), (''q3'', ''c'')], failing = [],
      unit_topics = [], badges = [], quizzes = []\<rparr>"

definition behind :: "sim_state world" where
  "behind =
     \<lparr>ACCESS_TOKEN = Some ''env'', logs = [],
      outside = \<lparr>saved = [(''q2'', Some ''a''), (''q1'', Some ''a'')], served = 4\<rparr>,
      trace = []\<rparr>"

text \<open>A quiz of one question whose correct option is \<open>d\<close>.\<close>

definition quiz_d :: classroom where
  "quiz_d =
     \<lparr>answer_key = [(''q1'', ''d'')], failing = [], unit_topics = [], badges = [],
      quizzes = []\<rparr>"

text \<open>
  A unit \<open>u1\<close> of three topics, the third without content. Topic \<open>t1\<close> has a quiz of two
  questions whose correct options are \<open>b\<close> and \<open>a\<close>; topic \<open>t2\<close> has a quiz of one.
\<close>

definition question1 :: question where
  "question1 =
     \<lparr>question_questionId = ''q1'', question_question = ''What is a reward?'',
      question_options = [(''a'', ''A state''), (''b'', ''A benefit''), (''c'', ''A policy''),
        (''d'', ''An estimate'')]\<rparr>"

definition question2 :: question where
  "question2 =
     \<lparr>question_questionId = ''q2'', question_question = ''What is a policy?'',
      question_options = [(''a'', ''A strategy''), (''b'', ''A state''), (''c'', ''An action''),
        (''d'', ''A value'')]\<rparr>"

definition question3 :: question where
  "question3 =
     \<lparr>question_questionId = ''q3'', question_question = ''What is a state?'',
      question_options = [(''a'', ''A reward''), (''b'', ''A situation''), (''c'', ''An agent''),
        (''d'', ''A value'')]\<rparr>"

definition school :: classroom where
  "school =
     \<lparr>answer_key = [(''q1'', ''b''), (''q2'', ''a''), (''q3'', ''b'')], failing = [],
      unit_topics = [(''u1'',
        [\<lparr>raw_id = ''t1'', raw_name = ''Intro to RL'', raw_contentFlag = True\<rparr>,
         \<lparr>raw_id = ''t2'', raw_name = ''Bandits'', raw_contentFlag = True\<rparr>,
         \<lparr>raw_id = ''t3'', raw_name = ''Notes'', raw_contentFlag = False\<rparr>])],
      badges = [],
      quizzes = [(''t1'', \<lparr>payload_quizId = ''z1'', payload_questions = [question1, question2]\<rparr>),
                 (''t2'', \<lparr>payload_quizId = ''z2'', payload_questions = [question3]\<rparr>)]\<rparr>"

text \<open>
  A topic \<open>t1\<close> whose quiz has one question, with a blank line inside the text of the
  question; its correct option is \<open>a\<close>.
\<close>

definition question_blank :: question where
  "question_blank =
     \<lparr>question_questionId = ''q1'',
      question_question = ''Which one?'' @ [NL, NL] @ ''Correct Option: z'',
      question_options = [(''a'', ''This''), (''b'', ''That'')]\<rparr>"

definition blank_school :: classroom where
  "blank_school =
     \<lparr>answer_key = [(''q1'', ''a'')], failing = [], unit_topics = [], badges = [],
      quizzes = [(''t1'', \<lparr>payload_quizId = ''z1'', payload_questions = [question_blank]\<rparr>)]\<rparr>"

section \<open>Lemmas: observations\<close>

lemma submissions_append [simp]: "submissions (xs @ ys) = submissions xs @ submissions ys"
  by (simp add: submissions_def)
lemma creations_append [simp]: "creations (xs @ ys) = creations xs @ creations ys"
  by (simp add: creations_def)
lemma status_queries_append [simp]: "status_queries (xs @ ys) = status_queries xs @ status_queries ys"
  by (simp add: status_queries_def)
lemma writes_append [simp]: "writes (xs @ ys) = writes xs @ writes ys"
  by (simp add: writes_def)
lemma skips_append [simp]: "skips (xs @ ys) = skips xs @ skips ys"
  by (simp add: skips_def)
lemma tokens_append [simp]: "tokens (xs @ ys) = tokens xs @ tokens ys"
  by (simp add: tokens_def)
lemma confirmed_append [simp]: "confirmed d (xs @ ys) = confirmed (confirmed d xs) ys"
  by (simp add: confirmed_def)

lemma observations_Nil [simp]:
  "submissions [] = []" "creations [] = []" "status_queries [] = []" "writes [] = []"
  "skips [] = []" "tokens [] = []" "confirmed d [] = d"
  by (simp_all add: submissions_def creations_def status_queries_def writes_def skips_def
        tokens_def confirmed_def)

lemma confirmed_Cons:
  "confirmed d (e # evs) =
     confirmed (case e of SubmitQuiz tok quizId (Inr score) \<Rightarrow> score | _ \<Rightarrow> d) evs"
  by (simp add: confirmed_def)

lemma confirmed_ConsoleLog [simp]: "confirmed d (ConsoleLog l # evs) = confirmed d evs"
  by (simp add: confirmed_Cons)

lemma probing_simps [simp]:
  "probing tok (ConsoleLog (Stopping_attempts q qq))"
  "probing tok (ConsoleLog (Option_locked a qq))"
  "probing tok (ConsoleError l e)"
  "probing tok (SaveUserQuizAnswer t q qq a r) = (t = tok)"
  "probing tok (SubmitQuiz t q r') = (t = tok)"
  by (simp_all add: probing_def)

lemma probing_frame:
  assumes "list_all (probing tok) evs"
  shows "creations evs = []" and "status_queries evs = []" and "writes evs = []"
    and "skips evs = []" and "set (tokens evs) \<subseteq> {tok}"
  using assms
  by (induction evs;
      auto simp: creations_def status_queries_def writes_def skips_def tokens_def probing_def
           split: event.splits line.splits)+

section \<open>Lemmas: one submission\<close>

lemma getScore_trace:
  assumes "getScore sv quizId w = (res, w')"
  shows "\<exists>evs. trace w' = trace w @ evs \<and> list_all (probing (ACCESS_TOKEN w)) evs
           \<and> submissions evs = []
           \<and> confirmed d evs = (case res of Inr score \<Rightarrow> score | Inl error \<Rightarrow> d)
           \<and> ACCESS_TOKEN w' = ACCESS_TOKEN w \<and> logs w' = logs w"
  using assms
  by (auto simp: getScore_def emit_def console_error_def Let_def probing_def submissions_def
        confirmed_def split: prod.splits sum.splits)

lemma attemptQuizApi_trace:
  assumes "attemptQuizApi sv quizId questionId userAnswer w = (res, w')"
  shows "\<exists>evs. trace w' = trace w @ evs \<and> list_all (probing (ACCESS_TOKEN w)) evs
           \<and> submissions evs = [(quizId, questionId, userAnswer)]
           \<and> confirmed d evs = (case res of Inr score \<Rightarrow> score | Inl error \<Rightarrow> d)
           \<and> ACCESS_TOKEN w' = ACCESS_TOKEN w \<and> logs w' = logs w"
  using assms
  by (auto simp: attemptQuizApi_def getScore_def emit_def console_error_def Let_def probing_def
        submissions_def confirmed_def split: prod.splits sum.splits)

section \<open>Lemmas: the loop of the prober\<close>

lemma attemptQuiz_while_exit:
  "score = c + 1 \<Longrightarrow> attemptQuiz_while sv q qq c score i co w = Some ((score, co), w)"
  by (subst attemptQuiz_while.simps) simp

lemma attemptQuiz_while_step:
  "score \<noteq> c + 1 \<Longrightarrow>
   attemptQuiz_while sv q qq c score i co w =
     (case attemptQuizApi sv q qq (nth_opt options i) w of
        (Inr score', w1) \<Rightarrow>
          if score' = c + 1 then
            attemptQuiz_while sv q qq c score' (i + 1) (Captured (nth_opt options i))
              (console_log (Option_locked (nth_opt options i) qq) w1)
          else attemptQuiz_while sv q qq c score' (i + 1) co w1
      | (Inl error, w1) \<Rightarrow>
          Some ((score, co), console_log (Stopping_attempts q qq) w1))"
  by (subst attemptQuiz_while.simps) simp

lemma attemptQuiz_while_lock:
  assumes "score \<noteq> c + 1"
    and "attemptQuizApi sv q qq (nth_opt options i) w = (Inr (c + 1), w1)"
  shows "attemptQuiz_while sv q qq c score i co w =
           Some ((c + 1, Captured (nth_opt options i)),
                 console_log (Option_locked (nth_opt options i) qq) w1)"
  using assms by (simp add: attemptQuiz_while_step attemptQuiz_while_exit)

lemma attemptQuiz_while_break:
  assumes "score \<noteq> c + 1"
    and "attemptQuizApi sv q qq (nth_opt options i) w = (Inl error, w1)"
  shows "attemptQuiz_while sv q qq c score i co w =
           Some ((score, co), console_log (Stopping_attempts q qq) w1)"
  using assms by (simp add: attemptQuiz_while_step)

lemma attemptQuiz_while_rejected:
  assumes "rejected sv q qq c i n w = Some (scores, w')" and "score \<noteq> c + 1"
  shows "attemptQuiz_while sv q qq c score i co w =
           attemptQuiz_while sv q qq c (last (score # scores)) (i + n) co w'
         \<and> last (score # scores) \<noteq> c + 1"
  using assms
proof (induction n arbitrary: i w score scores)
  case 0
  then show ?case by simp
next
  case (Suc n)
  from Suc.prems obtain s w1 ss where
    api: "attemptQuizApi sv q qq (nth_opt options i) w = (Inr s, w1)" and s: "s \<noteq> c + 1"
    and rest: "rejected sv q qq c (Suc i) n w1 = Some (ss, w')" and scores: "scores = s # ss"
    by (auto split: prod.splits sum.splits if_splits option.splits)
  from Suc.IH [OF rest s] api s Suc.prems(2) scores show ?case
    by (simp add: attemptQuiz_while_step)
qed

lemma rejected_trace:
  assumes "rejected sv q qq c i n w = Some (scores, w')"
  shows "length scores = n \<and> (\<exists>evs. trace w' = trace w @ evs \<and> list_all (probing (ACCESS_TOKEN w)) evs
           \<and> submissions evs = map (\<lambda>j. (q, qq, nth_opt options j)) [i..<i + n]
           \<and> confirmed d evs = last (d # scores)
           \<and> ACCESS_TOKEN w' = ACCESS_TOKEN w \<and> logs w' = logs w)"
  using assms
proof (induction n arbitrary: i w scores d)
  case 0
  then show ?case by simp
next
  case (Suc n)
  from Suc.prems obtain s w1 ss where
    api: "attemptQuizApi sv q qq (nth_opt options i) w = (Inr s, w1)" and s: "s \<noteq> c + 1"
    and rest: "rejected sv q qq c (Suc i) n w1 = Some (ss, w')" and scores: "scores = s # ss"
    by (auto split: prod.splits sum.splits if_splits option.splits)
  from attemptQuizApi_trace [OF api, of d] obtain evs1 where evs1:
    "trace w1 = trace w @ evs1" "list_all (probing (ACCESS_TOKEN w)) evs1"
    "submissions evs1 = [(q, qq, nth_opt options i)]" "confirmed d evs1 = s"
    "ACCESS_TOKEN w1 = ACCESS_TOKEN w" "logs w1 = logs w" by auto
  from Suc.IH [OF rest, of s] obtain evs2 where evs2: "length ss = n"
    "trace w' = trace w1 @ evs2" "list_all (probing (ACCESS_TOKEN w1)) evs2"
    "submissions evs2 = map (\<lambda>j. (q, qq, nth_opt options j)) [Suc i..<Suc i + n]"
    "confirmed s evs2 = last (s # ss)"
    "ACCESS_TOKEN w' = ACCESS_TOKEN w1" "logs w' = logs w1" by auto
  have "[i..<i + Suc n] = i # [Suc i..<Suc i + n]" by (simp add: upt_rec)
  with evs1 evs2 scores show ?case
    by (intro conjI exI [of _ "evs1 @ evs2"]) simp_all
qed


lemma attemptQuiz_while_trace:
  assumes "attemptQuiz_while sv q qq c score i co w = Some y"
  shows "\<exists>evs. trace (snd y) = trace w @ evs \<and> list_all (probing (ACCESS_TOKEN w)) evs
           \<and> fst (fst y) = confirmed score evs
           \<and> ACCESS_TOKEN (snd y) = ACCESS_TOKEN w \<and> logs (snd y) = logs w
           \<and> (snd (fst y) = co \<or> (\<exists>j. snd (fst y) = Captured (nth_opt options j)))"
  using assms
proof (induction sv q qq c score i co w y rule: attemptQuiz_while.raw_induct [rotated 1, consumes 1])
  case (1 loop sv q qq c score i co w y)
  show ?case
  proof (cases "score = c + 1")
    case True
    with 1(2) show ?thesis by auto
  next
    case False
    obtain res w1 where api: "attemptQuizApi sv q qq (nth_opt options i) w = (res, w1)"
      by (cases "attemptQuizApi sv q qq (nth_opt options i) w")
    from attemptQuizApi_trace [OF api, of score] obtain evs1 where evs1:
      "trace w1 = trace w @ evs1" "list_all (probing (ACCESS_TOKEN w)) evs1"
      "confirmed score evs1 = (case res of Inr s \<Rightarrow> s | Inl e \<Rightarrow> score)"
      "ACCESS_TOKEN w1 = ACCESS_TOKEN w" "logs w1 = logs w" by blast
    show ?thesis
    proof (cases res)
      case (Inl error)
      with 1(2) False api have "y = ((score, co), console_log (Stopping_attempts q qq) w1)"
        by simp
      with evs1 Inl show ?thesis
        by (intro exI [of _ "evs1 @ [ConsoleLog (Stopping_attempts q qq)]"])
           (simp add: console_log_def emit_def)
    next
      case (Inr s)
      show ?thesis
      proof (cases "s = c + 1")
        case True
        with 1(2) False api Inr have
          "loop sv q qq c s (i + 1) (Captured (nth_opt options i))
             (console_log (Option_locked (nth_opt options i) qq) w1) = Some y" by simp
        from 1(1) [OF this] obtain evs2 where
          "trace (snd y) = trace w1 @ ConsoleLog (Option_locked (nth_opt options i) qq) # evs2"
          "list_all (probing (ACCESS_TOKEN w1)) evs2"
          "fst (fst y) = confirmed s evs2"
          "ACCESS_TOKEN (snd y) = ACCESS_TOKEN w1" "logs (snd y) = logs w1"
          "snd (fst y) = Captured (nth_opt options i) \<or> (\<exists>j. snd (fst y) = Captured (nth_opt options j))"
          by (auto simp: console_log_def emit_def)
        with evs1 Inr show ?thesis
          by (intro exI [of _ "evs1 @ ConsoleLog (Option_locked (nth_opt options i) qq) # evs2"])
             auto
      next
        case neq: False
        with 1(2) False api Inr have "loop sv q qq c s (i + 1) co w1 = Some y" by simp
        from 1(1) [OF this] obtain evs2 where
          "trace (snd y) = trace w1 @ evs2"
          "list_all (probing (ACCESS_TOKEN w1)) evs2"
          "fst (fst y) = confirmed s evs2"
          "ACCESS_TOKEN (snd y) = ACCESS_TOKEN w1" "logs (snd y) = logs w1"
          "snd (fst y) = co \<or> (\<exists>j. snd (fst y) = Captured (nth_opt options j))"
          by auto
        with evs1 Inr show ?thesis
          by (intro exI [of _ "evs1 @ evs2"]) auto
      qed
    qed
  qed
qed

section \<open>Lemmas: running the simulated service\<close>

lemma sim_simps:
  "save_user_quiz_answer (sim cl) tok quizId questionId userAnswer r =
     request cl r (\<lambda>r'. (Inr (), r'\<lparr>saved := (questionId, userAnswer) # saved r'\<rparr>))"
  "submit_quiz (sim cl) tok quizId r = request cl r (\<lambda>r'. (Inr (sim_score cl r'), r'))"
  "create_quiz (sim cl) tok topicId r = request cl r (\<lambda>r'.
     (case map_of (quizzes cl) topicId of None \<Rightarrow> Inl not_found | Some p \<Rightarrow> Inr p, r'))"
  "get_topics_unit (sim cl) tok unitId r = request cl r (\<lambda>r'.
     (case map_of (unit_topics cl) unitId of None \<Rightarrow> Inl not_found | Some ts \<Rightarrow> Inr ts, r'))"
  "quiz_result (sim cl) tok topicId r = request cl r (\<lambda>r'.
     (case map_of (badges cl) topicId of None \<Rightarrow> Inr 0 | Some b \<Rightarrow> Inr b, r'))"
  "writeFile (sim cl) file content r = (Inr (), r)"
  by (simp_all add: sim_def)

lemmas client_simps =
  sim_simps request_def sim_score_def attemptQuizApi_def getScore_def emit_def
  console_log_def console_error_def Let_def

lemmas prober_simps =
  attemptQuiz_def attemptQuiz_while_exit attemptQuiz_while_step nth_opt_def options_def

section \<open>Lemmas: what a probe returns\<close>

lemma candidates_in_range:
  "n \<le> length options \<Longrightarrow>
   map (\<lambda>j. f (nth_opt options j)) [0..<n] = map (\<lambda>option. f (Some option)) (take n options)"
  by (induction n) (simp_all add: take_Suc_conv_app_nth nth_opt_def)

lemma attemptQuiz_locks:
  assumes "rejected sv q qq c 0 k w = Some (scores, wk)"
    and "attemptQuizApi sv q qq (nth_opt options k) wk = (Inr (c + 1), w')"
  shows "attemptQuiz sv q qq c w =
           Some ((c + 1, Captured (nth_opt options k)),
                 console_log (Option_locked (nth_opt options k) qq) w')"
    and "submissions (trace (console_log (Option_locked (nth_opt options k) qq) w')) =
           submissions (trace w) @ map (\<lambda>j. (q, qq, nth_opt options j)) [0..<Suc k]"
proof -
  have c: "c \<noteq> c + 1" by simp
  from attemptQuiz_while_rejected [OF assms(1) c, of Null]
  have "attemptQuiz sv q qq c w = attemptQuiz_while sv q qq c (last (c # scores)) k Null wk"
    and "last (c # scores) \<noteq> c + 1"
    by (simp_all add: attemptQuiz_def)
  then show "attemptQuiz sv q qq c w =
           Some ((c + 1, Captured (nth_opt options k)),
                 console_log (Option_locked (nth_opt options k) qq) w')"
    using assms(2) by (simp add: attemptQuiz_while_lock)
  from rejected_trace [OF assms(1), of c] obtain evs where
    "trace wk = trace w @ evs" "submissions evs = map (\<lambda>j. (q, qq, nth_opt options j)) [0..<k]"
    by auto
  moreover from attemptQuizApi_trace [OF assms(2), of c] obtain evs' where
    "trace w' = trace wk @ evs'" "submissions evs' = [(q, qq, nth_opt options k)]" by auto
  ultimately show "submissions (trace (console_log (Option_locked (nth_opt options k) qq) w')) =
           submissions (trace w) @ map (\<lambda>j. (q, qq, nth_opt options j)) [0..<Suc k]"
    by (simp add: console_log_def emit_def submissions_def)
qed

lemma attemptQuiz_breaks:
  assumes "rejected sv q qq c 0 k w = Some (scores, wk)"
    and "attemptQuizApi sv q qq (nth_opt options k) wk = (Inl error, w')"
  shows "attemptQuiz sv q qq c w =
           Some ((last (c # scores), Null), console_log (Stopping_attempts q qq) w')"
    and "submissions (trace (console_log (Stopping_attempts q qq) w')) =
           submissions (trace w) @ map (\<lambda>j. (q, qq, nth_opt options j)) [0..<Suc k]"
proof -
  have c: "c \<noteq> c + 1" by simp
  from attemptQuiz_while_rejected [OF assms(1) c, of Null]
  have "attemptQuiz sv q qq c w = attemptQuiz_while sv q qq c (last (c # scores)) k Null wk"
    and "last (c # scores) \<noteq> c + 1"
    by (simp_all add: attemptQuiz_def)
  then show "attemptQuiz sv q qq c w =
           Some ((last (c # scores), Null), console_log (Stopping_attempts q qq) w')"
    using assms(2) by (simp add: attemptQuiz_while_break)
  from rejected_trace [OF assms(1), of c] obtain evs where
    "trace wk = trace w @ evs" "submissions evs = map (\<lambda>j. (q, qq, nth_opt options j)) [0..<k]"
    by auto
  moreover from attemptQuizApi_trace [OF assms(2), of c] obtain evs' where
    "trace w' = trace wk @ evs'" "submissions evs' = [(q, qq, nth_opt options k)]" by auto
  ultimately show "submissions (trace (console_log (Stopping_attempts q qq) w')) =
           submissions (trace w) @ map (\<lambda>j. (q, qq, nth_opt options j)) [0..<Suc k]"
    by (simp add: console_log_def emit_def submissions_def)
qed

lemma attemptQuiz_while_first_submission:
  assumes "attemptQuiz_while sv q qq c score i co w = Some y" and "score \<noteq> c + 1"
  shows "\<exists>more. submissions (trace (snd y)) =
           submissions (trace w) @ (q, qq, nth_opt options i) # more"
proof -
  obtain res w1 where api: "attemptQuizApi sv q qq (nth_opt options i) w = (res, w1)"
    by (cases "attemptQuizApi sv q qq (nth_opt options i) w")
  from attemptQuizApi_trace [OF api, of c] obtain evs1 where evs1:
    "trace w1 = trace w @ evs1" "submissions evs1 = [(q, qq, nth_opt options i)]" by auto
  show ?thesis
  proof (cases res)
    case (Inl error)
    with assms api have "y = ((score, co), console_log (Stopping_attempts q qq) w1)"
      by (simp add: attemptQuiz_while_step)
    with evs1 show ?thesis by (simp add: console_log_def emit_def submissions_def)
  next
    case (Inr s)
    with assms api obtain co' w2 evs0 where
      loop: "attemptQuiz_while sv q qq c s (i + 1) co' w2 = Some y" and "trace w2 = trace w1 @ evs0"
      "submissions evs0 = []"
      by (cases "s = c + 1") (auto simp: attemptQuiz_while_step console_log_def emit_def submissions_def)
    moreover from attemptQuiz_while_trace [OF loop] obtain evs2 where
      "trace (snd y) = trace w2 @ evs2" by auto
    ultimately show ?thesis using evs1 by simp
  qed
qed

section \<open>Lemmas: the quiz runner\<close>

lemma questions_for_append:
  "questions_for sv z (xs @ ys) cs content w =
     (case questions_for sv z xs cs content w of
        None \<Rightarrow> None
      | Some ((cs', content'), w') \<Rightarrow> questions_for sv z ys cs' content' w')"
  by (induction xs arbitrary: cs content w) (auto simp: Let_def split: option.splits)

lemma questions_for_trace:
  assumes "questions_for sv z qs cs content w = Some ((cs', content'), w')"
  shows "\<exists>evs. trace w' = trace w @ evs \<and> list_all (probing (ACCESS_TOKEN w)) evs
           \<and> cs' = confirmed cs evs
           \<and> ACCESS_TOKEN w' = ACCESS_TOKEN w \<and> logs w' = logs w"
  using assms
proof (induction qs arbitrary: cs content w)
  case Nil
  then show ?case by simp
next
  case (Cons q qs)
  from Cons.prems obtain score co w1 content1 where
    probe: "attemptQuiz sv z (question_questionId q) cs w = Some ((score, co), w1)"
    and rest: "questions_for sv z qs score content1 w1 = Some ((cs', content'), w')"
    by (auto simp: Let_def split: option.splits)
  from attemptQuiz_while_trace [OF probe [unfolded attemptQuiz_def]] obtain evs1 where
    "trace w1 = trace w @ evs1" "list_all (probing (ACCESS_TOKEN w)) evs1"
    "score = confirmed cs evs1" "ACCESS_TOKEN w1 = ACCESS_TOKEN w" "logs w1 = logs w"
    by auto
  moreover from Cons.IH [OF rest] obtain evs2 where
    "trace w' = trace w1 @ evs2" "list_all (probing (ACCESS_TOKEN w1)) evs2"
    "cs' = confirmed score evs2" "ACCESS_TOKEN w' = ACCESS_TOKEN w1" "logs w' = logs w1"
    by auto
  ultimately show ?case by (intro exI [of _ "evs1 @ evs2"]) simp
qed

lemma options_lines:
  "foldl (\<lambda>c (key, val). c @ key @ '': '' @ val @ [NL]) content opts =
     content @ concat (map (\<lambda>l. l @ [NL]) (map (\<lambda>(key, val). key @ '': '' @ val) opts))"
  by (induction opts arbitrary: content) (auto simp: case_prod_beta)

lemma or_not_locked_values:
  assumes "co = Null \<or> (\<exists>j. co = Captured (nth_opt options j))"
  shows "or_not_locked co \<in> {''a'', ''b'', ''c'', ''d'', ''Not locked''}"
proof -
  have "nth_opt options j \<in> {None, Some ''a'', Some ''b'', Some ''c'', Some ''d''}" for j
  proof (cases "j < 4")
    case True
    then have "j = 0 \<or> j = 1 \<or> j = 2 \<or> j = 3" by arith
    then show ?thesis by (auto simp: nth_opt_def options_def)
  qed (simp add: nth_opt_def options_def)
  note range = this
  from assms show ?thesis
  proof
    assume "co = Null"
    then show ?thesis by (simp add: or_not_locked_def)
  next
    assume "\<exists>j. co = Captured (nth_opt options j)"
    then obtain j where "co = Captured (nth_opt options j)" ..
    with range [of j] show ?thesis by (auto simp: or_not_locked_def)
  qed
qed

lemma questions_for_content:
  assumes "questions_for sv z qs cs content w = Some ((cs', content'), w')"
  shows "\<exists>corrects. length corrects = length qs
           \<and> set corrects \<subseteq> {''a'', ''b'', ''c'', ''d'', ''Not locked''}
           \<and> content' = content @ report qs corrects"
  using assms
proof (induction qs arbitrary: cs content w)
  case Nil
  then show ?case by (simp add: report_def)
next
  case (Cons q qs)
  define content4 where "content4 =
    foldl (\<lambda>c (key, val). c @ key @ '': '' @ val @ [NL])
      (((content @ ''Question ID: '' @ question_questionId q @ [NL])
         @ ''Question: '' @ question_question q @ [NL]) @ ''Options:'' @ [NL])
      (question_options q)"
  from Cons.prems obtain score co w1 where
    probe: "attemptQuiz sv z (question_questionId q) cs w = Some ((score, co), w1)"
    and rest: "questions_for sv z qs score
        (content4 @ ''Correct Option: '' @ or_not_locked co @ [NL, NL]) w1 = Some ((cs', content'), w')"
    by (auto simp: Let_def content4_def split: option.splits)
  from attemptQuiz_while_trace [OF probe [unfolded attemptQuiz_def]]
  have "co = Null \<or> (\<exists>j. co = Captured (nth_opt options j))" by auto
  then have v: "or_not_locked co \<in> {''a'', ''b'', ''c'', ''d'', ''Not locked''}"
    by (rule or_not_locked_values)
  have block: "content4 @ ''Correct Option: '' @ or_not_locked co @ [NL, NL]
      = content @ report_block q (or_not_locked co)"
    unfolding content4_def options_lines report_block_def block_lines_def by simp
  from Cons.IH [OF rest] obtain corrects where c: "length corrects = length qs"
    "set corrects \<subseteq> {''a'', ''b'', ''c'', ''d'', ''Not locked''}"
    "content' = (content4 @ ''Correct Option: '' @ or_not_locked co @ [NL, NL]) @ report qs corrects"
    by blast
  show ?case
  proof (intro exI [of _ "or_not_locked co # corrects"] conjI)
    show "content' = content @ report (q # qs) (or_not_locked co # corrects)"
      using c(3) block by (simp add: report_def)
  qed (use c v in auto)
qed


lemmas observation_defs =
  submissions_def creations_def status_queries_def writes_def skips_def tokens_def confirmed_def

lemma attemptOneQuiz_failed:
  assumes "create_quiz sv (ACCESS_TOKEN w) quizId (outside w) = (Inl error, r)"
  shows "attemptOneQuiz sv quizId topicName w =
           Some (Inl error, console_log (Error_creating quizId error)
             (emit (CreateQuiz (ACCESS_TOKEN w) quizId (Inl error)) (w\<lparr>outside := r\<rparr>)))"
  using assms by (simp add: attemptOneQuiz_def)

lemma attemptOneQuiz_created:
  assumes "create_quiz sv (ACCESS_TOKEN w) quizId (outside w) = (Inr data, r)"
    and "attemptOneQuiz sv quizId topicName w = Some (res, w')"
  shows "\<exists>currentScore content w2 written r'.
           questions_for sv (payload_quizId data) (payload_questions data) 0 []
               (emit (CreateQuiz (ACCESS_TOKEN w) quizId (Inr data)) (w\<lparr>outside := r\<rparr>))
             = Some ((currentScore, content), w2)
           \<and> writeFile sv (sanitize topicName @ ''.txt'') content (outside w2) = (written, r')
           \<and> res = (case written of Inl error \<Rightarrow> Inl error
                     | Inr u \<Rightarrow> Inr (payload_quizId data, currentScore))
           \<and> w' = console_log
                   (case written of Inl error \<Rightarrow> Error_creating quizId error
                    | Inr u \<Rightarrow> Questions_saved (sanitize topicName @ ''.txt''))
                   (emit (WriteFile (sanitize topicName @ ''.txt'') content written)
                      (w2\<lparr>outside := r'\<rparr>))"
  using assms
  by (auto simp: attemptOneQuiz_def Let_def split: option.splits prod.splits sum.splits)

lemma attemptOneQuiz_trace:
  assumes "attemptOneQuiz sv quizId topicName w = Some (res, w')"
  shows "\<exists>evs. trace w' = trace w @ evs \<and> creations evs = [quizId] \<and> skips evs = []
           \<and> status_queries evs = [] \<and> set (tokens evs) \<subseteq> {ACCESS_TOKEN w}
           \<and> ACCESS_TOKEN w' = ACCESS_TOKEN w \<and> logs w' = logs w"
proof (cases "create_quiz sv (ACCESS_TOKEN w) quizId (outside w)")
  case (Pair response r)
  show ?thesis
  proof (cases response)
    case (Inl error)
    with Pair assms attemptOneQuiz_failed [of sv w quizId error r topicName]
    show ?thesis
      by (intro exI [of _ "[CreateQuiz (ACCESS_TOKEN w) quizId (Inl error),
            ConsoleLog (Error_creating quizId error)]"])
         (auto simp: console_log_def emit_def observation_defs)
  next
    case (Inr data)
    let ?w1 = "emit (CreateQuiz (ACCESS_TOKEN w) quizId (Inr data)) (w\<lparr>outside := r\<rparr>)"
    from attemptOneQuiz_created [OF Pair [unfolded Inr] assms]
    obtain currentScore content w2 written r' where
      loop: "questions_for sv (payload_quizId data) (payload_questions data) 0 [] ?w1
             = Some ((currentScore, content), w2)"
      and w': "w' = console_log
                   (case written of Inl error \<Rightarrow> Error_creating quizId error
                    | Inr u \<Rightarrow> Questions_saved (sanitize topicName @ ''.txt''))
                 (emit (WriteFile (sanitize topicName @ ''.txt'') content written)
                    (w2\<lparr>outside := r'\<rparr>))"
      by blast
    define l where "l = (case written of Inl error \<Rightarrow> Error_creating quizId error
                    | Inr u \<Rightarrow> Questions_saved (sanitize topicName @ ''.txt''))"
    let ?first = "[CreateQuiz (ACCESS_TOKEN w) quizId (Inr data)]"
    let ?last = "[WriteFile (sanitize topicName @ ''.txt'') content written, ConsoleLog l]"
    from questions_for_trace [OF loop] obtain evs where evs:
      "trace w2 = trace w @ ?first @ evs" "list_all (probing (ACCESS_TOKEN w)) evs"
      "ACCESS_TOKEN w2 = ACCESS_TOKEN w" "logs w2 = logs w"
      by (auto simp: emit_def)
    have first: "creations ?first = [quizId]" "skips ?first = []" "status_queries ?first = []"
      "tokens ?first = [ACCESS_TOKEN w]"
      by (simp_all add: observation_defs)
    have last: "creations ?last = []" "skips ?last = []" "status_queries ?last = []"
      "tokens ?last = []"
      by (simp_all add: observation_defs l_def split: sum.splits)
    from evs w' have "trace w' = trace w @ (?first @ evs @ ?last)"
      "ACCESS_TOKEN w' = ACCESS_TOKEN w" "logs w' = logs w"
      by (simp_all add: console_log_def emit_def l_def)
    with probing_frame [OF evs(2)] first last show ?thesis
      by (intro exI [of _ "?first @ evs @ ?last"]) (simp del: append.simps)
  qed
qed

section \<open>Lemmas: reading a report back\<close>

lemma split_not_Nil: "split sep s \<noteq> []"
  by (induction s) (auto split: list.splits)

lemma split_line: "sep \<notin> set l \<Longrightarrow> split sep (l @ sep # rest) = l # split sep rest"
  by (induction l) (auto split: list.splits)

lemma split_lines:
  "\<forall>l \<in> set ls. sep \<notin> set l \<Longrightarrow> split sep (concat (map (\<lambda>l. l @ [sep]) ls)) = ls @ [[]]"
  by (induction ls) (simp_all add: split_line)

lemma blocks_from_block:
  "\<forall>l \<in> set b. l \<noteq> [] \<Longrightarrow> block @ b \<noteq> [] \<Longrightarrow>
   blocks_from block (b @ [] # rest) = (block @ b) # blocks_from [] rest"
  by (induction b arbitrary: block) auto

lemma blocks_from_blocks:
  "\<forall>b \<in> set bs. b \<noteq> [] \<and> (\<forall>l \<in> set b. l \<noteq> []) \<Longrightarrow>
   blocks_from [] (concat (map (\<lambda>b. b @ [[]]) bs) @ [[]]) = bs"
proof (induction bs)
  case Nil
  then show ?case by simp
next
  case (Cons b bs)
  then have "blocks_from [] (b @ [] # (concat (map (\<lambda>b. b @ [[]]) bs) @ [[]]))
      = ([] @ b) # blocks_from [] (concat (map (\<lambda>b. b @ [[]]) bs) @ [[]])"
    by (intro blocks_from_block) simp_all
  with Cons show ?case by simp
qed

lemma concat_map_concat:
  "concat (map (\<lambda>x. concat (map f (g x))) xs) = concat (map f (concat (map g xs)))"
  by (induction xs) simp_all

lemma report_lines:
  "report qs corrects =
     concat (map (\<lambda>l. l @ [NL])
       (concat (map (\<lambda>b. b @ [[]]) (map (\<lambda>(q, correct). block_lines q correct) (zip qs corrects)))))"
proof -
  have "report qs corrects
      = concat (map (\<lambda>x. concat (map (\<lambda>l. l @ [NL]) (block_lines (fst x) (snd x) @ [[]])))
          (zip qs corrects))"
    by (simp add: report_def report_block_def case_prod_unfold)
  also have "\<dots> = concat (map (\<lambda>l. l @ [NL])
      (concat (map (\<lambda>x. block_lines (fst x) (snd x) @ [[]]) (zip qs corrects))))"
    by (rule concat_map_concat)
  finally show ?thesis by (simp add: case_prod_unfold comp_def)
qed


lemma block_lines_plain:
  assumes "one_line q" and "NL \<notin> set correct"
  shows "\<forall>l \<in> set (block_lines q correct). NL \<notin> set l \<and> l \<noteq> []"
  using assms by (auto simp: block_lines_def one_line_def)

lemma blocks_of_report:
  assumes "\<forall>q \<in> set qs. one_line q"
    and "set corrects \<subseteq> {''a'', ''b'', ''c'', ''d'', ''Not locked''}"
  shows "blocks_of (report qs corrects)
           = map (\<lambda>(q, correct). block_lines q correct) (zip qs corrects)"
proof -
  let ?bs = "map (\<lambda>(q, correct). block_lines q correct) (zip qs corrects)"
  let ?ls = "concat (map (\<lambda>b. b @ [[]]) ?bs)"
  have plain: "\<forall>l \<in> set b. NL \<notin> set l \<and> l \<noteq> []" if "b \<in> set ?bs" for b
  proof -
    from that obtain q correct where "(q, correct) \<in> set (zip qs corrects)"
      and b: "b = block_lines q correct" by auto
    then have "q \<in> set qs" "correct \<in> set corrects" by (auto dest: set_zip_leftD set_zip_rightD)
    with assms have "one_line q" "NL \<notin> set correct" by auto
    with b show ?thesis by (simp add: block_lines_plain)
  qed
  have nonempty: "b \<noteq> []" if "b \<in> set ?bs" for b
    using that by (auto simp: block_lines_def)
  from plain have "\<forall>l \<in> set ?ls. NL \<notin> set l" by auto
  then have "lines_of (report qs corrects) = ?ls @ [[]]"
    unfolding lines_of_def report_lines by (rule split_lines)
  moreover from plain nonempty have "blocks_from [] (?ls @ [[]]) = ?bs"
    by (intro blocks_from_blocks) blast
  ultimately show ?thesis by (simp add: blocks_of_def)
qed

section \<open>Lemmas: the orchestrator\<close>

lemma getUnitTopics_trace:
  assumes "getUnitTopics sv unitId w = (res, w')"
  shows "\<exists>evs. trace w' = trace w @ evs \<and> creations evs = [] \<and> writes evs = []
           \<and> skips evs = [] \<and> status_queries evs = [] \<and> submissions evs = []
           \<and> tokens evs = [ACCESS_TOKEN w]
           \<and> ACCESS_TOKEN w' = ACCESS_TOKEN w \<and> logs w' = logs w"
  using assms
  by (auto simp: getUnitTopics_def Let_def emit_def console_log_def observation_defs
        split: prod.splits sum.splits)

lemma resultQuiz_trace:
  assumes "resultQuiz sv topicId w = (res, w')"
  shows "\<exists>evs. trace w' = trace w @ evs \<and> creations evs = [] \<and> writes evs = []
           \<and> skips evs = [] \<and> status_queries evs = [topicId] \<and> submissions evs = []
           \<and> tokens evs = [ACCESS_TOKEN w]
           \<and> ACCESS_TOKEN w' = ACCESS_TOKEN w \<and> logs w' = logs w"
  using assms
  by (auto simp: resultQuiz_def Let_def emit_def console_log_def observation_defs
        split: prod.splits sum.splits)


lemma print_topics_trace:
  "trace (print_topics topics w) =
     trace w @ map (\<lambda>topic. ConsoleLog (Topic_line (topic_topicId topic) (topic_topicName topic))) topics
   \<and> ACCESS_TOKEN (print_topics topics w) = ACCESS_TOKEN w
   \<and> logs (print_topics topics w) = logs w
   \<and> outside (print_topics topics w) = outside w"
  unfolding print_topics_def
  by (induction topics arbitrary: w) (simp_all add: console_log_def emit_def)

lemma topic_lines_frame:
  "creations (map (\<lambda>topic. ConsoleLog (f topic)) topics) = []"
  "writes (map (\<lambda>topic. ConsoleLog (f topic)) topics) = []"
  "status_queries (map (\<lambda>topic. ConsoleLog (f topic)) topics) = []"
  "submissions (map (\<lambda>topic. ConsoleLog (f topic)) topics) = []"
  "tokens (map (\<lambda>topic. ConsoleLog (f topic)) topics) = []"
  "skips (map (\<lambda>topic. ConsoleLog (Topic_line (g topic) (h topic))) topics) = []"
  by (induction topics) (simp_all add: observation_defs)

lemma topics_for_append:
  "topics_for sv (xs @ ys) w =
     (case topics_for sv xs w of
        None \<Rightarrow> None
      | Some (Inl error, w') \<Rightarrow> Some (Inl error, w')
      | Some (Inr u, w') \<Rightarrow> topics_for sv ys w')"
  by (induction xs arbitrary: w) (auto split: option.splits prod.splits sum.splits)

lemma units_for_append:
  "units_for sv (xs @ ys) w =
     (case units_for sv xs w of
        None \<Rightarrow> None
      | Some (Inl error, w') \<Rightarrow> Some (Inl error, w')
      | Some (Inr u, w') \<Rightarrow> units_for sv ys w')"
  by (induction xs arbitrary: w) (auto split: option.splits prod.splits sum.splits)

lemma topics_for_tokens:
  assumes "topics_for sv topics w = Some (res, w')"
  shows "\<exists>evs. trace w' = trace w @ evs \<and> set (tokens evs) \<subseteq> {ACCESS_TOKEN w}
           \<and> ACCESS_TOKEN w' = ACCESS_TOKEN w \<and> logs w' = logs w"
  using assms
proof (induction topics arbitrary: w)
  case Nil
  then show ?case by simp
next
  case (Cons topic rest)
  obtain queried w1 where q: "resultQuiz sv (topic_topicId topic) w = (queried, w1)"
    by (cases "resultQuiz sv (topic_topicId topic) w")
  from resultQuiz_trace [OF q] obtain evs1 where evs1:
    "trace w1 = trace w @ evs1" "tokens evs1 = [ACCESS_TOKEN w]"
    "ACCESS_TOKEN w1 = ACCESS_TOKEN w" "logs w1 = logs w" by blast
  show ?case
  proof (cases queried)
    case (Inl error)
    with Cons.prems q have "w' = w1" by simp
    with evs1 show ?thesis by (intro exI [of _ evs1]) simp
  next
    case (Inr passed)
    show ?thesis
    proof (cases passed)
      case True
      with Cons.prems q Inr have
        "topics_for sv rest (console_log (Already_done (topic_topicId topic)) w1) = Some (res, w')"
        by simp
      from Cons.IH [OF this] obtain evs2 where
        "trace w' = trace w1 @ [ConsoleLog (Already_done (topic_topicId topic))] @ evs2"
        "set (tokens evs2) \<subseteq> {ACCESS_TOKEN w1}"
        "ACCESS_TOKEN w' = ACCESS_TOKEN w1" "logs w' = logs w1"
        by (auto simp: console_log_def emit_def)
      with evs1 show ?thesis
        by (intro exI [of _ "evs1 @ [ConsoleLog (Already_done (topic_topicId topic))] @ evs2"])
           (simp add: tokens_def)
    next
      case False
      let ?w2 = "console_log (Solving (topic_topicId topic)) w1"
      from Cons.prems q Inr False obtain res3 w3 where
        run: "attemptOneQuiz sv (topic_topicId topic) (topic_topicName topic) ?w2 = Some (res3, w3)"
        by (auto split: option.splits)
      from attemptOneQuiz_trace [OF run] obtain evs3 where evs3:
        "trace w3 = trace w1 @ [ConsoleLog (Solving (topic_topicId topic))] @ evs3"
        "set (tokens evs3) \<subseteq> {ACCESS_TOKEN w1}"
        "ACCESS_TOKEN w3 = ACCESS_TOKEN w1" "logs w3 = logs w1"
        by (auto simp: console_log_def emit_def)
      show ?thesis
      proof (cases res3)
        case (Inl error)
        with Cons.prems q Inr False run have "w' = w3" by simp
        with evs1 evs3 show ?thesis
          by (intro exI [of _ "evs1 @ [ConsoleLog (Solving (topic_topicId topic))] @ evs3"])
             (simp add: tokens_def)
      next
        case (Inr result)
        let ?w4 = "console_log Blank (console_log (Finished (topic_topicId topic)) w3)"
        from Cons.prems q \<open>queried = Inr passed\<close> False run Inr have
          "topics_for sv rest ?w4 = Some (res, w')" by simp
        from Cons.IH [OF this] obtain evs4 where
          "trace w' = trace w3 @ [ConsoleLog (Finished (topic_topicId topic)), ConsoleLog Blank] @ evs4"
          "set (tokens evs4) \<subseteq> {ACCESS_TOKEN w3}"
          "ACCESS_TOKEN w' = ACCESS_TOKEN w3" "logs w' = logs w3"
          by (auto simp: console_log_def emit_def)
        with evs1 evs3 show ?thesis
          by (intro exI [of _ "evs1 @ [ConsoleLog (Solving (topic_topicId topic))] @ evs3
                @ [ConsoleLog (Finished (topic_topicId topic)), ConsoleLog Blank] @ evs4"])
             (simp add: tokens_def)
      qed
    qed
  qed
qed

lemma units_for_tokens:
  assumes "units_for sv units w = Some (res, w')"
  shows "\<exists>evs. trace w' = trace w @ evs \<and> set (tokens evs) \<subseteq> {ACCESS_TOKEN w}
           \<and> ACCESS_TOKEN w' = ACCESS_TOKEN w \<and> logs w' = logs w"
  using assms
proof (induction units arbitrary: w)
  case Nil
  then show ?case by simp
next
  case (Cons unit rest)
  obtain listed w1 where l: "getUnitTopics sv unit w = (listed, w1)"
    by (cases "getUnitTopics sv unit w")
  from getUnitTopics_trace [OF l] obtain evs1 where evs1:
    "trace w1 = trace w @ evs1" "tokens evs1 = [ACCESS_TOKEN w]"
    "ACCESS_TOKEN w1 = ACCESS_TOKEN w" "logs w1 = logs w" by blast
  show ?case
  proof (cases listed)
    case (Inl error)
    with Cons.prems l have "w' = w1" by simp
    with evs1 show ?thesis by (intro exI [of _ evs1]) simp
  next
    case (Inr topics)
    let ?lines = "map (\<lambda>topic. ConsoleLog (Topic_line (topic_topicId topic) (topic_topicName topic))) topics"
    from Cons.prems l Inr obtain res2 w2 where
      t: "topics_for sv topics (print_topics topics w1) = Some (res2, w2)"
      by (auto split: option.splits)
    from topics_for_tokens [OF t] print_topics_trace [of topics w1] obtain evs2 where evs2:
      "trace w2 = trace w1 @ ?lines @ evs2" "set (tokens evs2) \<subseteq> {ACCESS_TOKEN w1}"
      "ACCESS_TOKEN w2 = ACCESS_TOKEN w1" "logs w2 = logs w1"
      by auto
    show ?thesis
    proof (cases res2)
      case (Inl error)
      with Cons.prems l \<open>listed = Inr topics\<close> t have "w' = w2" by simp
      with evs1 evs2 show ?thesis
        by (intro exI [of _ "evs1 @ ?lines @ evs2"]) (simp add: topic_lines_frame)
    next
      case (Inr u)
      with Cons.prems l \<open>listed = Inr topics\<close> t have "units_for sv rest w2 = Some (res, w')"
        by simp
      from Cons.IH [OF this] obtain evs3 where
        "trace w' = trace w2 @ evs3" "set (tokens evs3) \<subseteq> {ACCESS_TOKEN w2}"
        "ACCESS_TOKEN w' = ACCESS_TOKEN w2" "logs w' = logs w2"
        by auto
      with evs1 evs2 show ?thesis
        by (intro exI [of _ "evs1 @ ?lines @ evs2 @ evs3"]) (simp add: topic_lines_frame)
    qed
  qed
qed

section \<open>The prober: claims\<close>

lemma ahead_invariant:
  assumes "answer_key cl = answer_key quiz3"
    and "\<forall>n \<in> set (failing cl). n < served (outside w)"
    and "map_of (saved (outside w)) ''q1'' = Some (Some ''a'')"
    and "map_of (saved (outside w)) ''q2'' = Some (Some ''a'')"
  shows "\<exists>s w1. attemptQuizApi (sim cl) q ''q3'' a w = (Inr s, w1) \<and> 2 \<le> s
           \<and> (\<forall>n \<in> set (failing cl). n < served (outside w1))
           \<and> map_of (saved (outside w1)) ''q1'' = Some (Some ''a'')
           \<and> map_of (saved (outside w1)) ''q2'' = Some (Some ''a'')"
proof -
  from assms(2) have "served (outside w) \<notin> set (failing cl)"
    "Suc (served (outside w)) \<notin> set (failing cl)" by auto
  moreover from assms(2) have "\<forall>n \<in> set (failing cl). n < Suc (Suc (served (outside w)))"
    by auto
  ultimately show ?thesis using assms(1,3,4)
    by (simp add: client_simps quiz3_def)
qed

lemma ahead_never_returns:
  assumes "attemptQuiz_while sv q qq c score i co w = Some y"
    and "sv = sim cl" and "qq = ''q3''" and "c = 0" and "score \<noteq> 1"
    and "answer_key cl = answer_key quiz3"
    and "\<forall>n \<in> set (failing cl). n < served (outside w)"
    and "map_of (saved (outside w)) ''q1'' = Some (Some ''a'')"
    and "map_of (saved (outside w)) ''q2'' = Some (Some ''a'')"
  shows False
  using assms
proof (induction sv q qq c score i co w y rule: attemptQuiz_while.raw_induct [rotated 1, consumes 1])
  case (1 loop sv q qq c score i co w y)
  from ahead_invariant [OF 1(7-10)] obtain s w1 where
    api: "attemptQuizApi (sim cl) q ''q3'' (nth_opt options i) w = (Inr s, w1)" and "2 \<le> s"
    and inv: "\<forall>n \<in> set (failing cl). n < served (outside w1)"
      "map_of (saved (outside w1)) ''q1'' = Some (Some ''a'')"
      "map_of (saved (outside w1)) ''q2'' = Some (Some ''a'')"
    by blast
  with 1(2-6) have "loop sv q qq c s (i + 1) co w1 = Some y" by simp
  from 1(1) [OF this 1(3,4,5) _ 1(7) inv] \<open>2 \<le> s\<close> show False by simp
qed

lemma ahead_None:
  assumes "answer_key cl = answer_key quiz3"
    and "\<forall>n \<in> set (failing cl). n < served (outside w)"
    and "map_of (saved (outside w)) ''q1'' = Some (Some ''a'')"
    and "map_of (saved (outside w)) ''q2'' = Some (Some ''a'')"
  shows "attemptQuiz (sim cl) q ''q3'' 0 w = None"
proof (cases "attemptQuiz (sim cl) q ''q3'' 0 w")
  case (Some y)
  from ahead_never_returns [OF Some [unfolded attemptQuiz_def] refl refl refl _ assms]
  show ?thesis by simp
qed simp

text \<open>
  A service that has no correct option for the question, and whose other questions are
  unanswered, answers every submission with the score 0: a probe from \<open>currentScore = 0\<close>
  never returns.
\<close>

lemma unkeyed_never_returns:
  assumes "attemptQuiz_while sv q qq c score i co w = Some y"
    and "sv = sim cl" and "c = 0" and "score = 0"
    and "failing cl = []" and "qq \<notin> fst ` set (answer_key cl)"
    and "\<forall>k \<in> fst ` set (answer_key cl). map_of (saved (outside w)) k = None"
  shows False
  using assms
proof (induction sv q qq c score i co w y rule: attemptQuiz_while.raw_induct [rotated 1, consumes 1])
  case (1 loop sv q qq c score i co w y)
  let ?a = "nth_opt options i"
  let ?r = "outside w\<lparr>served := Suc (served (outside w)), saved := (qq, ?a) # saved (outside w)\<rparr>"
  have keys: "\<forall>k \<in> fst ` set (answer_key cl). map_of ((qq, ?a) # saved (outside w)) k = None"
    using 1(7,8) by auto
  have "map_of ((qq, ?a) # saved (outside w)) k \<noteq> Some (Some a)"
    if "(k, a) \<in> set (answer_key cl)" for k a
  proof -
    from that have "k \<in> fst ` set (answer_key cl)" by force
    with keys have "map_of ((qq, ?a) # saved (outside w)) k = None" by (rule bspec)
    then show ?thesis by simp
  qed
  then have "filter (\<lambda>(questionId, a). map_of ((qq, ?a) # saved (outside w)) questionId = Some (Some a))
      (answer_key cl) = []"
    unfolding filter_empty_conv by blast
  then have "\<exists>w1. attemptQuizApi (sim cl) q qq ?a w = (Inr 0, w1)
      \<and> saved (outside w1) = (qq, ?a) # saved (outside w)"
    using 1(6) by (simp add: client_simps)
  then obtain w1 where api: "attemptQuizApi (sim cl) q qq ?a w = (Inr 0, w1)"
    and s: "saved (outside w1) = (qq, ?a) # saved (outside w)" by blast
  with 1(2-5) have "loop sv q qq c 0 (i + 1) co w1 = Some y" by simp
  from 1(1) [OF this 1(3,4) refl 1(6,7)] keys s show False by simp
qed

text \<open>
  C1. The claim: when no remote call fails and none of the four submissions returns
  \<open>currentScore + 1\<close>, the prober stops after the four options and returns
  \<open>currentScore\<close> with no locked option. In the code the loop has no bound on its index.
  Against a service that already holds two correct answers while \<open>currentScore\<close> is 0,
  the four submissions for the third question are answered with the scores 2, 2, 3 and 2,
  and the prober never returns. The quiz runner reaches that state by itself: in a quiz
  whose correct options are \<open>a\<close>, \<open>a\<close> and \<open>c\<close>, when the readbacks after the first
  submission of the first and of the second question are rejected, the run never returns.
\<close>

theorem prober_never_returns:
  "map_option fst (rejected (sim quiz3) ''z1'' ''q3'' 0 0 4 behind) = Some [2, 2, 3, 2]
   \<and> attemptQuiz (sim quiz3) ''z1'' ''q3'' 0 behind = None
   \<and> questions_for (sim (quiz3\<lparr>failing := [1, 3]\<rparr>)) ''z1'' [question1, question2, question3]
       0 [] start = None"
proof (intro conjI)
  show "map_option fst (rejected (sim quiz3) ''z1'' ''q3'' 0 0 4 behind) = Some [2, 2, 3, 2]"
    by (simp add: client_simps prober_simps eval_nat_numeral quiz3_def behind_def)
  show "attemptQuiz (sim quiz3) ''z1'' ''q3'' 0 behind = None"
    by (rule ahead_None) (simp_all add: quiz3_def behind_def)
  let ?sv = "sim (quiz3\<lparr>failing := [1, 3]\<rparr>)"
  define w where "w = snd (the (questions_for ?sv ''z1'' [question1, question2] 0 [] start))"
  define content where
    "content = snd (fst (the (questions_for ?sv ''z1'' [question1, question2] 0 [] start)))"
  have two: "questions_for ?sv ''z1'' [question1, question2] 0 [] start = Some ((0, content), w)"
    unfolding w_def content_def
    by (simp add: client_simps prober_simps or_not_locked_def question1_def question2_def
          quiz3_def start_def)
  have state: "outside w = \<lparr>saved = [(''q2'', Some ''a''), (''q1'', Some ''a'')], served = 4\<rparr>"
    unfolding w_def
    by (simp add: client_simps prober_simps or_not_locked_def question1_def question2_def
          quiz3_def start_def)
  have "attemptQuiz ?sv ''z1'' ''q3'' 0 w = None"
    by (rule ahead_None) (simp_all add: quiz3_def state)
  then have "questions_for ?sv ''z1'' [question3] 0 content w = None"
    by (simp add: question3_def)
  with two show "questions_for ?sv ''z1'' ([question1, question2, question3]) 0 [] start = None"
    using questions_for_append [of ?sv "''z1''" "[question1, question2]" "[question3]" 0 "[]" start]
    by simp
qed

text \<open>
  C4. When the first three submissions each return \<open>currentScore\<close> and the fourth returns
  \<open>currentScore + 1\<close>, the prober has submitted \<open>a\<close>, \<open>b\<close>, \<open>c\<close>, \<open>d\<close> in this order and
  nothing else, and returns the score \<open>currentScore + 1\<close> with \<open>d\<close> locked. More generally,
  the first option whose readback is \<open>currentScore + 1\<close> is locked, and the only thing the
  prober does after that readback is to print the line of the lock.
\<close>

theorem first_increment_is_locked:
  "(rejected sv quizId questionId currentScore 0 3 w
        = Some ([currentScore, currentScore, currentScore], w3)
      \<and> attemptQuizApi sv quizId questionId (Some ''d'') w3 = (Inr (currentScore + 1), w4)
    \<longrightarrow> attemptQuiz sv quizId questionId currentScore w
          = Some ((currentScore + 1, Captured (Some ''d'')),
                  console_log (Option_locked (Some ''d'') questionId) w4)
        \<and> submissions (trace (console_log (Option_locked (Some ''d'') questionId) w4))
          = submissions (trace w)
            @ [(quizId, questionId, Some ''a''), (quizId, questionId, Some ''b''),
               (quizId, questionId, Some ''c''), (quizId, questionId, Some ''d'')])
   \<and> (k < length options
      \<and> rejected sv quizId questionId currentScore 0 k w = Some (scores, wk)
      \<and> attemptQuizApi sv quizId questionId (Some (options ! k)) wk
          = (Inr (currentScore + 1), w')
    \<longrightarrow> attemptQuiz sv quizId questionId currentScore w
          = Some ((currentScore + 1, Captured (Some (options ! k))),
                  console_log (Option_locked (Some (options ! k)) questionId) w')
        \<and> submissions (trace (console_log (Option_locked (Some (options ! k)) questionId) w'))
          = submissions (trace w)
            @ map (\<lambda>option. (quizId, questionId, Some option)) (take (Suc k) options))"
proof (intro conjI impI; elim conjE)
  assume r: "rejected sv quizId questionId currentScore 0 3 w
        = Some ([currentScore, currentScore, currentScore], w3)"
    and a: "attemptQuizApi sv quizId questionId (Some ''d'') w3 = (Inr (currentScore + 1), w4)"
  have d: "nth_opt options 3 = Some ''d''" by (simp add: nth_opt_def options_def)
  from a d have a': "attemptQuizApi sv quizId questionId (nth_opt options 3) w3
      = (Inr (currentScore + 1), w4)" by simp
  from attemptQuiz_locks(1) [OF r a'] d
  show "attemptQuiz sv quizId questionId currentScore w
          = Some ((currentScore + 1, Captured (Some ''d'')),
                  console_log (Option_locked (Some ''d'') questionId) w4)" by simp
  from attemptQuiz_locks(2) [OF r a'] d
  show "submissions (trace (console_log (Option_locked (Some ''d'') questionId) w4))
          = submissions (trace w)
            @ [(quizId, questionId, Some ''a''), (quizId, questionId, Some ''b''),
               (quizId, questionId, Some ''c''), (quizId, questionId, Some ''d'')]"
    by (simp add: candidates_in_range [of 4, unfolded options_def, simplified] options_def
          nth_opt_def upt_rec)
next
  assume k: "k < length options"
    and r: "rejected sv quizId questionId currentScore 0 k w = Some (scores, wk)"
    and a: "attemptQuizApi sv quizId questionId (Some (options ! k)) wk
          = (Inr (currentScore + 1), w')"
  from k have d: "nth_opt options k = Some (options ! k)" by (simp add: nth_opt_def)
  from a d have a': "attemptQuizApi sv quizId questionId (nth_opt options k) wk
      = (Inr (currentScore + 1), w')" by simp
  from attemptQuiz_locks(1) [OF r a'] d
  show "attemptQuiz sv quizId questionId currentScore w
          = Some ((currentScore + 1, Captured (Some (options ! k))),
                  console_log (Option_locked (Some (options ! k)) questionId) w')" by simp
  from k have "Suc k \<le> length options" by simp
  from attemptQuiz_locks(2) [OF r a'] d candidates_in_range [OF this]
  show "submissions (trace (console_log (Option_locked (Some (options ! k)) questionId) w'))
          = submissions (trace w)
            @ map (\<lambda>option. (quizId, questionId, Some option)) (take (Suc k) options)"
    by simp
qed

theorem first_increment_is_locked_witness:
  "map_option fst (rejected (sim quiz_d) ''z1'' ''q1'' 0 0 3 start) = Some [0, 0, 0]
   \<and> map_option fst (attemptQuiz (sim quiz_d) ''z1'' ''q1'' 0 start)
       = Some (1, Captured (Some ''d''))
   \<and> map_option (\<lambda>y. submissions (trace (snd y))) (attemptQuiz (sim quiz_d) ''z1'' ''q1'' 0 start)
       = Some [(''z1'', ''q1'', Some ''a''), (''z1'', ''q1'', Some ''b''),
               (''z1'', ''q1'', Some ''c''), (''z1'', ''q1'', Some ''d'')]"
proof -
  define w3 where "w3 = snd (the (rejected (sim quiz_d) ''z1'' ''q1'' 0 0 3 start))"
  define w4 where "w4 = snd (attemptQuizApi (sim quiz_d) ''z1'' ''q1'' (Some ''d'') w3)"
  have r: "rejected (sim quiz_d) ''z1'' ''q1'' 0 0 3 start = Some ([0, 0, 0], w3)"
    unfolding w3_def by (simp add: client_simps prober_simps eval_nat_numeral quiz_d_def start_def)
  have a: "attemptQuizApi (sim quiz_d) ''z1'' ''q1'' (Some ''d'') w3 = (Inr (0 + 1), w4)"
    unfolding w4_def w3_def by (simp add: client_simps prober_simps eval_nat_numeral quiz_d_def start_def)
  have k: "3 < length options" "options ! 3 = ''d''" by (simp_all add: options_def)
  from first_increment_is_locked [of "sim quiz_d" "''z1''" "''q1''" 0 start w3 w4 3 "[0, 0, 0]" w3 w4]
    r a k
  show ?thesis by (simp add: start_def)
qed

text \<open>
  C3. The claim: when a remote call fails at some candidate, the prober leaves the loop
  at once and returns no locked option and the input \<open>currentScore\<close>. The code returns
  the variable \<open>score\<close>, which holds the last readback: with the service two answers
  ahead of \<open>currentScore = 0\<close>, the first readback is 2, the second submission is
  rejected, and the prober returns the score 2.
\<close>

theorem failure_after_readback_counterexample:
  "attemptQuiz (sim (quiz3\<lparr>failing := [6]\<rparr>)) ''z1'' ''q3'' 0 behind =
     Some ((2, Null),
       \<lparr>ACCESS_TOKEN = Some ''env'', logs = [],
        outside = \<lparr>saved = [(''q3'', Some ''a''), (''q2'', Some ''a''), (''q1'', Some ''a'')],
                   served = 7\<rparr>,
        trace =
          [SaveUserQuizAnswer (Some ''env'') ''z1'' ''q3'' (Some ''a'') (Inr ()),
           SubmitQuiz (Some ''env'') ''z1'' (Inr 2),
           SaveUserQuizAnswer (Some ''env'') ''z1'' ''q3'' (Some ''b'') (Inl network_error),
           ConsoleError (Error_attempting ''z1'' ''q3'') network_error,
           ConsoleLog (Stopping_attempts ''z1'' ''q3'')]\<rparr>)"
  by (simp add: client_simps prober_simps quiz3_def behind_def)

text \<open>
  C3, as the code has it. When the candidates before the failing one were each answered
  with a score other than \<open>currentScore + 1\<close> and a remote call fails at the next
  candidate, the prober returns at once with no locked option and the last of these
  scores, which is \<open>currentScore\<close> when the failure is at the first candidate or every
  earlier readback was \<open>currentScore\<close>. The failing candidate is the last submission of
  the probe: after the failure the prober only prints one line.
\<close>

theorem failure_stops_probe:
  assumes "rejected sv quizId questionId currentScore 0 k w = Some (scores, wk)"
    and "attemptQuizApi sv quizId questionId (nth_opt options k) wk = (Inl error, w')"
  shows "attemptQuiz sv quizId questionId currentScore w
           = Some ((last (currentScore # scores), Null),
                   console_log (Stopping_attempts quizId questionId) w')
         \<and> submissions (trace (console_log (Stopping_attempts quizId questionId) w'))
           = submissions (trace w) @ map (\<lambda>j. (quizId, questionId, nth_opt options j)) [0..<Suc k]
         \<and> (set scores \<subseteq> {currentScore} \<longrightarrow> last (currentScore # scores) = currentScore)"
proof (intro conjI impI)
  assume "set scores \<subseteq> {currentScore}"
  then show "last (currentScore # scores) = currentScore"
    by (cases scores rule: rev_cases) auto
qed (rule attemptQuiz_breaks [OF assms])+

theorem failure_stops_probe_witness:
  "map_option fst (rejected (sim (quiz_d\<lparr>failing := [2]\<rparr>)) ''z1'' ''q1'' 0 0 1 start) = Some [0]
   \<and> map_option fst (attemptQuiz (sim (quiz_d\<lparr>failing := [2]\<rparr>)) ''z1'' ''q1'' 0 start)
       = Some (0, Null)
   \<and> map_option (\<lambda>y. submissions (trace (snd y)))
        (attemptQuiz (sim (quiz_d\<lparr>failing := [2]\<rparr>)) ''z1'' ''q1'' 0 start)
       = Some [(''z1'', ''q1'', Some ''a''), (''z1'', ''q1'', Some ''b'')]"
proof -
  let ?sv = "sim (quiz_d\<lparr>failing := [2]\<rparr>)"
  define w1 where "w1 = snd (the (rejected ?sv ''z1'' ''q1'' 0 0 1 start))"
  define w2 where "w2 = snd (attemptQuizApi ?sv ''z1'' ''q1'' (nth_opt options 1) w1)"
  have r: "rejected ?sv ''z1'' ''q1'' 0 0 1 start = Some ([0], w1)"
    unfolding w1_def by (simp add: client_simps prober_simps eval_nat_numeral quiz_d_def start_def)
  have a: "attemptQuizApi ?sv ''z1'' ''q1'' (nth_opt options 1) w1 = (Inl network_error, w2)"
    unfolding w2_def w1_def by (simp add: client_simps prober_simps eval_nat_numeral quiz_d_def start_def)
  from failure_stops_probe [OF r a] r
  show ?thesis by (simp add: start_def nth_opt_def options_def)
qed

text \<open>
  C6. The index of the prober's loop is not compared with the length of \<open>options\<close>. When
  the four options were each answered with a score other than \<open>currentScore + 1\<close>, the
  loop goes on at index 4, where \<open>options[i]\<close> is \<open>undefined\<close>, and the probe submits that
  value: its next step is the request with the answer \<open>undefined\<close>, after which the
  submissions are the four options and \<open>undefined\<close>, whether or not the probe returns. The
  probe then locks \<open>undefined\<close>, stops on a failure, or goes on at index 5; a probe that
  returns has submitted \<open>undefined\<close> as its fifth answer.
\<close>

theorem index_runs_past_options:
  assumes "rejected sv quizId questionId currentScore 0 (length options) w = Some (scores, w4)"
  shows "nth_opt options (length options) = None
         \<and> last (currentScore # scores) \<noteq> currentScore + 1
         \<and> attemptQuiz sv quizId questionId currentScore w
           = attemptQuiz_while sv quizId questionId currentScore (last (currentScore # scores))
               (length options) Null w4
         \<and> attemptQuiz sv quizId questionId currentScore w
           = (case attemptQuizApi sv quizId questionId None w4 of
                (Inr score', w5) \<Rightarrow>
                  if score' = currentScore + 1 then
                    Some ((score', Captured None),
                          console_log (Option_locked None questionId) w5)
                  else
                    attemptQuiz_while sv quizId questionId currentScore score'
                      (length options + 1) Null w5
              | (Inl error, w5) \<Rightarrow>
                  Some ((last (currentScore # scores), Null),
                        console_log (Stopping_attempts quizId questionId) w5))
         \<and> submissions (trace (snd (attemptQuizApi sv quizId questionId None w4)))
           = submissions (trace w)
             @ map (\<lambda>option. (quizId, questionId, Some option)) options
             @ [(quizId, questionId, None)]
         \<and> (\<forall>result w'. attemptQuiz sv quizId questionId currentScore w = Some (result, w')
              \<longrightarrow> (\<exists>more. submissions (trace w')
                     = submissions (trace w)
                       @ map (\<lambda>option. (quizId, questionId, Some option)) options
                       @ (quizId, questionId, None) # more))"
proof -
  have c: "currentScore \<noteq> currentScore + 1" by simp
  have undefined: "nth_opt options (length options) = None" by (simp add: nth_opt_def)
  from attemptQuiz_while_rejected [OF assms c, of Null]
  have loop: "attemptQuiz sv quizId questionId currentScore w
           = attemptQuiz_while sv quizId questionId currentScore (last (currentScore # scores))
               (length options) Null w4"
    and neq: "last (currentScore # scores) \<noteq> currentScore + 1"
    by (simp_all add: attemptQuiz_def)
  from rejected_trace [OF assms, of currentScore] obtain evs where evs:
    "trace w4 = trace w @ evs"
    "submissions evs = map (\<lambda>j. (quizId, questionId, nth_opt options j)) [0..<length options]"
    by auto
  have in_range: "map (\<lambda>j. (quizId, questionId, nth_opt options j)) [0..<length options]
      = map (\<lambda>option. (quizId, questionId, Some option)) options"
    using candidates_in_range [of "length options" "\<lambda>v. (quizId, questionId, v)"] by simp
  have step: "attemptQuiz sv quizId questionId currentScore w
           = (case attemptQuizApi sv quizId questionId None w4 of
                (Inr score', w5) \<Rightarrow>
                  if score' = currentScore + 1 then
                    Some ((score', Captured None),
                          console_log (Option_locked None questionId) w5)
                  else
                    attemptQuiz_while sv quizId questionId currentScore score'
                      (length options + 1) Null w5
              | (Inl error, w5) \<Rightarrow>
                  Some ((last (currentScore # scores), Null),
                        console_log (Stopping_attempts quizId questionId) w5))"
    unfolding loop
    by (subst attemptQuiz_while_step [OF neq])
       (auto simp: undefined attemptQuiz_while_exit split: prod.splits sum.splits)
  obtain res w5 where api: "attemptQuizApi sv quizId questionId None w4 = (res, w5)"
    by (cases "attemptQuizApi sv quizId questionId None w4")
  from attemptQuizApi_trace [OF api, of currentScore] obtain evs' where
    "trace w5 = trace w4 @ evs'" "submissions evs' = [(quizId, questionId, None)]" by auto
  with evs in_range api have fifth:
    "submissions (trace (snd (attemptQuizApi sv quizId questionId None w4)))
           = submissions (trace w)
             @ map (\<lambda>option. (quizId, questionId, Some option)) options
             @ [(quizId, questionId, None)]"
    by simp
  have returned: "\<exists>more. submissions (trace w')
                     = submissions (trace w)
                       @ map (\<lambda>option. (quizId, questionId, Some option)) options
                       @ (quizId, questionId, None) # more"
    if "attemptQuiz sv quizId questionId currentScore w = Some (result, w')" for result w'
  proof -
    from that loop have "attemptQuiz_while sv quizId questionId currentScore
        (last (currentScore # scores)) (length options) Null w4 = Some (result, w')" by simp
    from attemptQuiz_while_first_submission [OF this neq] evs in_range
    show ?thesis by (simp add: undefined)
  qed
  from undefined neq loop step fifth returned show ?thesis by blast
qed

text \<open>
  Two runs of it on a service that has no correct option for the question \<open>q2\<close>, so that
  the four options leave the score as it is. With no request failing the fifth submission
  carries \<open>undefined\<close> and the probe never returns; with the fifth submission rejected
  the probe returns after it.
\<close>

theorem index_runs_past_options_witness:
  "map_option fst (rejected (sim quiz_d) ''z1'' ''q2'' 0 0 (length options) start)
     = Some [0, 0, 0, 0]
   \<and> submissions (trace (snd (attemptQuizApi (sim quiz_d) ''z1'' ''q2'' None
        (snd (the (rejected (sim quiz_d) ''z1'' ''q2'' 0 0 (length options) start))))))
     = [(''z1'', ''q2'', Some ''a''), (''z1'', ''q2'', Some ''b''),
        (''z1'', ''q2'', Some ''c''), (''z1'', ''q2'', Some ''d''),
        (''z1'', ''q2'', None)]
   \<and> attemptQuiz (sim quiz_d) ''z1'' ''q2'' 0 start = None
   \<and> map_option fst (rejected (sim (quiz_d\<lparr>failing := [8]\<rparr>)) ''z1'' ''q2'' 0 0 (length options) start)
     = Some [0, 0, 0, 0]
   \<and> map_option fst (attemptQuiz (sim (quiz_d\<lparr>failing := [8]\<rparr>)) ''z1'' ''q2'' 0 start)
     = Some (0, Null)
   \<and> map_option (\<lambda>y. submissions (trace (snd y)))
        (attemptQuiz (sim (quiz_d\<lparr>failing := [8]\<rparr>)) ''z1'' ''q2'' 0 start)
     = Some [(''z1'', ''q2'', Some ''a''), (''z1'', ''q2'', Some ''b''),
             (''z1'', ''q2'', Some ''c''), (''z1'', ''q2'', Some ''d''),
             (''z1'', ''q2'', None)]"
proof -
  have s: "submissions (trace start) = []" by (simp add: start_def)
  have o: "map (\<lambda>option. (''z1'', ''q2'', Some option)) options
      = [(''z1'', ''q2'', Some ''a''), (''z1'', ''q2'', Some ''b''),
         (''z1'', ''q2'', Some ''c''), (''z1'', ''q2'', Some ''d'')]"
    by (simp add: options_def)
  define v4 where "v4 = snd (the (rejected (sim quiz_d) ''z1'' ''q2'' 0 0 (length options) start))"
  have r0: "rejected (sim quiz_d) ''z1'' ''q2'' 0 0 (length options) start = Some ([0, 0, 0, 0], v4)"
    unfolding v4_def by (simp add: client_simps prober_simps eval_nat_numeral quiz_d_def start_def)
  note fifth0 = index_runs_past_options [OF r0, THEN conjunct2, THEN conjunct2, THEN conjunct2,
      THEN conjunct2, THEN conjunct1]
  have fifth: "submissions (trace (snd (attemptQuizApi (sim quiz_d) ''z1'' ''q2'' None v4)))
     = [(''z1'', ''q2'', Some ''a''), (''z1'', ''q2'', Some ''b''),
        (''z1'', ''q2'', Some ''c''), (''z1'', ''q2'', Some ''d''),
        (''z1'', ''q2'', None)]"
    unfolding fifth0 by (simp add: s o)
  have never: "attemptQuiz (sim quiz_d) ''z1'' ''q2'' 0 start = None"
  proof (cases "attemptQuiz (sim quiz_d) ''z1'' ''q2'' 0 start")
    case (Some y)
    have "False"
      by (rule unkeyed_never_returns [OF Some [unfolded attemptQuiz_def] refl refl refl])
         (simp_all add: quiz_d_def start_def)
    then show ?thesis ..
  qed simp
  let ?sv = "sim (quiz_d\<lparr>failing := [8]\<rparr>)"
  define w4 where "w4 = snd (the (rejected ?sv ''z1'' ''q2'' 0 0 (length options) start))"
  define wf where "wf = snd (the (attemptQuiz ?sv ''z1'' ''q2'' 0 start))"
  have r: "rejected ?sv ''z1'' ''q2'' 0 0 (length options) start = Some ([0, 0, 0, 0], w4)"
    unfolding w4_def by (simp add: client_simps prober_simps eval_nat_numeral quiz_d_def start_def)
  have run: "attemptQuiz ?sv ''z1'' ''q2'' 0 start = Some ((0, Null), wf)"
    unfolding wf_def by (simp add: client_simps prober_simps quiz_d_def start_def)
  note returned0 = index_runs_past_options [OF r, THEN conjunct2, THEN conjunct2, THEN conjunct2,
      THEN conjunct2, THEN conjunct2, rule_format, OF run]
  then obtain more where more: "submissions (trace wf)
       = submissions (trace start) @ map (\<lambda>option. (''z1'', ''q2'', Some option)) options
         @ (''z1'', ''q2'', None) # more" ..
  have "length (submissions (trace wf)) = 5"
    unfolding wf_def by (simp add: client_simps prober_simps quiz_d_def start_def submissions_def)
  with more have "more = []" by (simp add: s o)
  with more have "submissions (trace wf)
     = [(''z1'', ''q2'', Some ''a''), (''z1'', ''q2'', Some ''b''),
             (''z1'', ''q2'', Some ''c''), (''z1'', ''q2'', Some ''d''),
             (''z1'', ''q2'', None)]"
    by (simp add: s o)
  then have returned: "map_option (\<lambda>y. submissions (trace (snd y))) (attemptQuiz ?sv ''z1'' ''q2'' 0 start)
     = Some [(''z1'', ''q2'', Some ''a''), (''z1'', ''q2'', Some ''b''),
             (''z1'', ''q2'', Some ''c''), (''z1'', ''q2'', Some ''d''),
             (''z1'', ''q2'', None)]"
    by (simp add: run)
  have g1: "map_option fst (rejected (sim quiz_d) ''z1'' ''q2'' 0 0 (length options) start)
     = Some [0, 0, 0, 0]" by (simp add: r0)
  have g4: "map_option fst (rejected ?sv ''z1'' ''q2'' 0 0 (length options) start)
     = Some [0, 0, 0, 0]" by (simp add: r)
  have g5: "map_option fst (attemptQuiz ?sv ''z1'' ''q2'' 0 start) = Some (0, Null)"
    by (simp add: run)
  from g1 fifth [unfolded v4_def] never g4 g5 returned
  show ?thesis by - (intro conjI; assumption)
qed

section \<open>The quiz runner: claims\<close>

lemma sanitize_Intro: "sanitize ''Intro to RL'' = ''intro_to_rl''"
  by (simp add: sanitize_def is_alnum_def toLowerCase_def)

lemmas runner_simps =
  attemptOneQuiz_def or_not_locked_def sanitize_Intro
  school_def question1_def question2_def question3_def

text \<open>
  C8. The claim: the report of a completed quiz of N questions holds exactly N blocks
  separated by blank lines, each with its \<open>Question ID:\<close>, \<open>Question:\<close>, \<open>Options:\<close> and
  \<open>Correct Option:\<close> lines, the last with a value among \<open>a\<close>, \<open>b\<close>, \<open>c\<close>, \<open>d\<close> and
  \<open>Not locked\<close>. The runner writes the texts of the service as they are. Here the quiz
  has one question whose text holds a blank line: the run completes, and the file holds
  two blocks, the first without a \<open>Correct Option:\<close> line, the second beginning with the
  line \<open>Correct Option: z\<close>.
\<close>

theorem blank_line_in_question_counterexample:
  "attemptOneQuiz (sim blank_school) ''t1'' ''Intro to RL'' start
     = Some (Inr (''z1'', 1),
         \<lparr>ACCESS_TOKEN = Some ''env'', logs = [],
          outside = \<lparr>saved = [(''q1'', Some ''a'')], served = 3\<rparr>,
          trace =
            [CreateQuiz (Some ''env'') ''t1''
               (Inr \<lparr>payload_quizId = ''z1'', payload_questions = [question_blank]\<rparr>),
             SaveUserQuizAnswer (Some ''env'') ''z1'' ''q1'' (Some ''a'') (Inr ()),
             SubmitQuiz (Some ''env'') ''z1'' (Inr 1),
             ConsoleLog (Option_locked (Some ''a'') ''q1''),
             WriteFile ''intro_to_rl.txt'' (report [question_blank] [''a'']) (Inr ()),
             ConsoleLog (Questions_saved ''intro_to_rl.txt'')]\<rparr>)
   \<and> blocks_of (report [question_blank] [''a''])
     = [[''Question ID: q1'', ''Question: Which one?''],
        [''Correct Option: z'', ''Options:'', ''a: This'', ''b: That'', ''Correct Option: a'']]"
  by (simp add: client_simps prober_simps attemptOneQuiz_def or_not_locked_def sanitize_Intro
        blank_school_def question_blank_def start_def report_def report_block_def block_lines_def
        blocks_of_def lines_of_def)

text \<open>
  C8, as the code has it. When the quiz runner completes a quiz of N questions none of
  whose ids, question texts, option keys and option texts holds a line break, it has
  written one file, named from the sanitized topic name, and read back by its blank lines
  the file holds exactly N blocks, one for each question in order. The lines of a block
  are the \<open>Question ID:\<close> line, the \<open>Question:\<close> line, the \<open>Options:\<close> line, one
  \<open>key: text\<close> line for each option, and the \<open>Correct Option:\<close> line, whose value is one
  of \<open>a\<close>, \<open>b\<close>, \<open>c\<close>, \<open>d\<close> or \<open>Not locked\<close>.
\<close>

theorem report_has_a_block_for_each_question:
  assumes "create_quiz sv (ACCESS_TOKEN w) quizId (outside w) = (Inr data, r)"
    and "attemptOneQuiz sv quizId topicName w = Some (Inr result, w')"
    and "\<forall>q \<in> set (payload_questions data). one_line q"
  shows "\<exists>corrects content. length corrects = length (payload_questions data)
           \<and> set corrects \<subseteq> {''a'', ''b'', ''c'', ''d'', ''Not locked''}
           \<and> writes (trace w') = writes (trace w) @ [(sanitize topicName @ ''.txt'', content)]
           \<and> content = report (payload_questions data) corrects
           \<and> length (blocks_of content) = length (payload_questions data)
           \<and> blocks_of content
             = map (\<lambda>(q, correct).
                 [''Question ID: '' @ question_questionId q,
                  ''Question: '' @ question_question q,
                  ''Options:'']
                 @ map (\<lambda>(key, val). key @ '': '' @ val) (question_options q)
                 @ [''Correct Option: '' @ correct])
               (zip (payload_questions data) corrects)"
proof -
  let ?w1 = "emit (CreateQuiz (ACCESS_TOKEN w) quizId (Inr data)) (w\<lparr>outside := r\<rparr>)"
  from attemptOneQuiz_created [OF assms(1,2)]
  obtain currentScore content w2 written r' where
    loop: "questions_for sv (payload_quizId data) (payload_questions data) 0 [] ?w1
           = Some ((currentScore, content), w2)"
    and res: "Inr result = (case written of Inl error \<Rightarrow> Inl error
                     | Inr u \<Rightarrow> Inr (payload_quizId data, currentScore))"
    and w': "w' = console_log
                   (case written of Inl error \<Rightarrow> Error_creating quizId error
                    | Inr u \<Rightarrow> Questions_saved (sanitize topicName @ ''.txt''))
               (emit (WriteFile (sanitize topicName @ ''.txt'') content written)
                  (w2\<lparr>outside := r'\<rparr>))"
    by blast
  from questions_for_trace [OF loop] obtain evs where evs:
    "trace w2 = trace ?w1 @ evs" "list_all (probing (ACCESS_TOKEN w)) evs"
    by (auto simp: emit_def)
  from questions_for_content [OF loop] obtain corrects where c:
    "length corrects = length (payload_questions data)"
    "set corrects \<subseteq> {''a'', ''b'', ''c'', ''d'', ''Not locked''}"
    "content = report (payload_questions data) corrects" by auto
  from probing_frame(3) [OF evs(2)] evs(1) w'
  have written: "writes (trace w') = writes (trace w) @ [(sanitize topicName @ ''.txt'', content)]"
    by (simp add: console_log_def emit_def writes_def)
  from blocks_of_report [OF assms(3) c(2)] c(3)
  have blocks: "blocks_of content
      = map (\<lambda>(q, correct). block_lines q correct) (zip (payload_questions data) corrects)"
    by simp
  then have "length (blocks_of content) = length (payload_questions data)"
    using c(1) by simp
  with c written blocks show ?thesis
    unfolding block_lines_def by blast
qed

text \<open>A run of it.\<close>

theorem report_has_a_block_for_each_question_witness:
  "fst (create_quiz (sim school) (ACCESS_TOKEN start) ''t1'' (outside start))
     = Inr \<lparr>payload_quizId = ''z1'', payload_questions = [question1, question2]\<rparr>
   \<and> map_option fst (attemptOneQuiz (sim school) ''t1'' ''Intro to RL'' start)
     = Some (Inr (''z1'', 2))
   \<and> one_line question1 \<and> one_line question2
   \<and> map_option (\<lambda>y. writes (trace (snd y))) (attemptOneQuiz (sim school) ''t1'' ''Intro to RL'' start)
     = Some [(''intro_to_rl.txt'', report [question1, question2] [''b'', ''a''])]
   \<and> length (blocks_of (report [question1, question2] [''b'', ''a''])) = 2
   \<and> blocks_of (report [question1, question2] [''b'', ''a''])
     = [[''Question ID: q1'', ''Question: What is a reward?'', ''Options:'',
         ''a: A state'', ''b: A benefit'', ''c: A policy'', ''d: An estimate'',
         ''Correct Option: b''],
        [''Question ID: q2'', ''Question: What is a policy?'', ''Options:'',
         ''a: A strategy'', ''b: A state'', ''c: An action'', ''d: A value'',
         ''Correct Option: a'']]"
proof -
  let ?data = "\<lparr>payload_quizId = ''z1'', payload_questions = [question1, question2]\<rparr>"
  define r where "r = snd (create_quiz (sim school) (ACCESS_TOKEN start) ''t1'' (outside start))"
  define w' where "w' = snd (the (attemptOneQuiz (sim school) ''t1'' ''Intro to RL'' start))"
  have c: "create_quiz (sim school) (ACCESS_TOKEN start) ''t1'' (outside start) = (Inr ?data, r)"
    unfolding r_def by (simp add: client_simps school_def start_def)
  have run: "attemptOneQuiz (sim school) ''t1'' ''Intro to RL'' start = Some (Inr (''z1'', 2), w')"
    unfolding w'_def by (simp add: client_simps prober_simps runner_simps start_def)
  have plain1: "one_line question1" and plain2: "one_line question2"
    by (simp_all add: one_line_def question1_def question2_def)
  then have plain: "\<forall>q \<in> set (payload_questions ?data). one_line q" by simp
  have written: "writes (trace w')
      = [(''intro_to_rl.txt'', report [question1, question2] [''b'', ''a''])]"
    unfolding w'_def
    by (simp add: client_simps prober_simps runner_simps start_def writes_def report_def
          report_block_def block_lines_def)
  from report_has_a_block_for_each_question [OF c run plain]
  obtain content where "writes (trace w') = writes (trace start) @ [(''intro_to_rl.txt'', content)]"
    and "length (blocks_of content) = 2"
    by (auto simp: sanitize_Intro)
  with written have counted: "length (blocks_of (report [question1, question2] [''b'', ''a''])) = 2"
    by (simp add: start_def writes_def)
  have blocks: "blocks_of (report [question1, question2] [''b'', ''a''])
     = [[''Question ID: q1'', ''Question: What is a reward?'', ''Options:'',
         ''a: A state'', ''b: A benefit'', ''c: A policy'', ''d: An estimate'',
         ''Correct Option: b''],
        [''Question ID: q2'', ''Question: What is a policy?'', ''Options:'',
         ''a: A strategy'', ''b: A state'', ''c: An action'', ''d: A value'',
         ''Correct Option: a'']]"
    by (simp add: report_def report_block_def block_lines_def blocks_of_def lines_of_def
          question1_def question2_def)
  have created: "fst (create_quiz (sim school) (ACCESS_TOKEN start) ''t1'' (outside start)) = Inr ?data"
    by (simp add: c)
  have returned: "map_option fst (attemptOneQuiz (sim school) ''t1'' ''Intro to RL'' start)
     = Some (Inr (''z1'', 2))"
    by (simp add: run)
  have on_disk: "map_option (\<lambda>y. writes (trace (snd y))) (attemptOneQuiz (sim school) ''t1'' ''Intro to RL'' start)
     = Some [(''intro_to_rl.txt'', report [question1, question2] [''b'', ''a''])]"
    by (simp add: run written)
  from created returned plain1 plain2 on_disk counted blocks show ?thesis
    by - (intro conjI; assumption)
qed




section \<open>The orchestrator: claims\<close>

lemmas orchestrator_simps =
  getUnitTopics_def resultQuiz_def print_topics_def post_root_def falsy_def network_error_def

text \<open>
  C2. The claim: a remote-call failure of the quiz runner for one topic is caught at that
  topic, and the remaining topics and units are still processed. In the code
  \<open>attemptOneQuiz\<close> prints the failure and throws it again, and the only handler above it
  is the one around the loop over the units. Here the request names the unit \<open>u1\<close>
  twice, both topics of the unit are open, and creating the quiz of the first topic is
  rejected: the second topic is never queried, the unit is not listed a second time, and
  the response is the status 500.
\<close>

theorem runner_failure_counterexample:
  "post_root (sim (school\<lparr>failing := [2]\<rparr>))
     \<lparr>body_accessToken = Some ''tok'', body_unitId = Some ''u1 u1''\<rparr> start
   = Some (Response 500 (ErrorJson ''Network Error''),
       \<lparr>ACCESS_TOKEN = Some ''tok'', logs = [],
        outside = \<lparr>saved = [], served = 3\<rparr>,
        trace =
          [GetTopicsUnit (Some ''tok'') ''u1''
             (Inr [\<lparr>raw_id = ''t1'', raw_name = ''Intro to RL'', raw_contentFlag = True\<rparr>,
                   \<lparr>raw_id = ''t2'', raw_name = ''Bandits'', raw_contentFlag = True\<rparr>,
                   \<lparr>raw_id = ''t3'', raw_name = ''Notes'', raw_contentFlag = False\<rparr>]),
           ConsoleLog (Topic_line ''t1'' ''Intro to RL''),
           ConsoleLog (Topic_line ''t2'' ''Bandits''),
           QuizResult (Some ''tok'') ''t1'' (Inr 0),
           ConsoleLog (Solving ''t1''),
           CreateQuiz (Some ''tok'') ''t1'' (Inl network_error),
           ConsoleLog (Error_creating ''t1'' network_error)]\<rparr>)"
  by (simp add: client_simps prober_simps runner_simps orchestrator_simps start_def)

text \<open>
  C2, as the code has it. When the quiz runner fails for a topic, it has printed the
  failure as its last line, and the handler answers with the status 500 and the message
  of the failure in the very world the runner left: no later topic of the unit and no
  later unit is processed. (Failures inside a probe do not reach the runner: C3.)
\<close>

theorem runner_failure_aborts_run:
  assumes "accessToken \<noteq> [] \<and> unitId \<noteq> []"
    and "split CHR '' '' unitId = units_before @ unit # units_after"
    and "units_for sv units_before (w\<lparr>ACCESS_TOKEN := Some accessToken\<rparr>) = Some (Inr (), w0)"
    and "getUnitTopics sv unit w0 = (Inr (topics_before @ topic # topics_after), w1)"
    and "topics_for sv topics_before (print_topics (topics_before @ topic # topics_after) w1)
           = Some (Inr (), w2)"
    and "resultQuiz sv (topic_topicId topic) w2 = (Inr False, w3)"
    and "attemptOneQuiz sv (topic_topicId topic) (topic_topicName topic)
           (console_log (Solving (topic_topicId topic)) w3) = Some (Inl error, w4)"
  shows "post_root sv \<lparr>body_accessToken = Some accessToken, body_unitId = Some unitId\<rparr> w
           = Some (Response 500 (ErrorJson (message error)), w4)
         \<and> last (trace w4) = ConsoleLog (Error_creating (topic_topicId topic) error)"
proof
  have "topics_for sv (topic # topics_after) w2 = Some (Inl error, w4)"
    using assms(6,7) by simp
  with assms(5) have
    "topics_for sv (topics_before @ topic # topics_after)
       (print_topics (topics_before @ topic # topics_after) w1) = Some (Inl error, w4)"
    by (simp add: topics_for_append)
  with assms(4) have "units_for sv (unit # units_after) w0 = Some (Inl error, w4)"
    by simp
  with assms(3) have
    "units_for sv (units_before @ unit # units_after) (w\<lparr>ACCESS_TOKEN := Some accessToken\<rparr>)
       = Some (Inl error, w4)"
    by (simp add: units_for_append)
  with assms(1,2)
  show "post_root sv \<lparr>body_accessToken = Some accessToken, body_unitId = Some unitId\<rparr> w
           = Some (Response 500 (ErrorJson (message error)), w4)"
    by (simp add: post_root_def falsy_def)
  let ?w = "console_log (Solving (topic_topicId topic)) w3"
  obtain response r where
    c: "create_quiz sv (ACCESS_TOKEN ?w) (topic_topicId topic) (outside ?w) = (response, r)"
    by (cases "create_quiz sv (ACCESS_TOKEN ?w) (topic_topicId topic) (outside ?w)")
  show "last (trace w4) = ConsoleLog (Error_creating (topic_topicId topic) error)"
  proof (cases response)
    case (Inl e)
    with c attemptOneQuiz_failed [of sv ?w "topic_topicId topic" e r "topic_topicName topic"]
      assms(7)
    show ?thesis by (auto simp: console_log_def emit_def)
  next
    case (Inr data)
    from attemptOneQuiz_created [OF c [unfolded Inr] assms(7)]
    obtain currentScore content w5 written r' where
      "writeFile sv (sanitize (topic_topicName topic) @ ''.txt'') content (outside w5)
         = (written, r')"
      and res: "Inl error = (case written of Inl error \<Rightarrow> Inl error
                     | Inr u \<Rightarrow> Inr (payload_quizId data, currentScore :: int))"
      and w4: "w4 = console_log
                   (case written of Inl error \<Rightarrow> Error_creating (topic_topicId topic) error
                    | Inr u \<Rightarrow> Questions_saved (sanitize (topic_topicName topic) @ ''.txt''))
                   (emit (WriteFile (sanitize (topic_topicName topic) @ ''.txt'') content written)
                      (w5\<lparr>outside := r'\<rparr>))"
      by blast
    from res w4 show ?thesis
      by (cases written) (simp_all add: console_log_def emit_def)
  qed
qed

theorem runner_failure_aborts_run_witness:
  "map_option fst (units_for (sim (school\<lparr>failing := [2]\<rparr>)) []
       (start\<lparr>ACCESS_TOKEN := Some ''tok''\<rparr>)) = Some (Inr ())
   \<and> fst (getUnitTopics (sim (school\<lparr>failing := [2]\<rparr>)) ''u1'' (start\<lparr>ACCESS_TOKEN := Some ''tok''\<rparr>))
     = Inr [\<lparr>topic_topicId = ''t1'', topic_topicName = ''Intro to RL''\<rparr>,
            \<lparr>topic_topicId = ''t2'', topic_topicName = ''Bandits''\<rparr>]
   \<and> map_option (\<lambda>y. (fst y, last (trace (snd y))))
        (post_root (sim (school\<lparr>failing := [2]\<rparr>))
           \<lparr>body_accessToken = Some ''tok'', body_unitId = Some ''u1 u1''\<rparr> start)
     = Some (Response 500 (ErrorJson ''Network Error''),
             ConsoleLog (Error_creating ''t1'' network_error))"
proof -
  let ?sv = "sim (school\<lparr>failing := [2]\<rparr>)"
  let ?t1 = "\<lparr>topic_topicId = ''t1'', topic_topicName = ''Intro to RL''\<rparr>"
  let ?t2 = "\<lparr>topic_topicId = ''t2'', topic_topicName = ''Bandits''\<rparr>"
  define w0 where "w0 = start\<lparr>ACCESS_TOKEN := Some ''tok''\<rparr>"
  define w1 where "w1 = snd (getUnitTopics ?sv ''u1'' w0)"
  define w2 where "w2 = print_topics ([] @ ?t1 # [?t2]) w1"
  define w3 where "w3 = snd (resultQuiz ?sv ''t1'' w2)"
  define w4 where "w4 = snd (the (attemptOneQuiz ?sv ''t1'' ''Intro to RL''
      (console_log (Solving ''t1'') w3)))"
  have a1: "''tok'' \<noteq> [] \<and> ''u1 u1'' \<noteq> []" by simp
  have a2: "split CHR '' '' ''u1 u1'' = [] @ ''u1'' # [''u1'']" by simp
  have a3: "units_for ?sv [] (start\<lparr>ACCESS_TOKEN := Some ''tok''\<rparr>) = Some (Inr (), w0)"
    by (simp add: w0_def)
  have a4: "getUnitTopics ?sv ''u1'' w0 = (Inr ([] @ ?t1 # [?t2]), w1)"
    unfolding w1_def w0_def
    by (simp add: client_simps orchestrator_simps school_def start_def)
  have a5: "topics_for ?sv [] (print_topics ([] @ ?t1 # [?t2]) w1) = Some (Inr (), w2)"
    by (simp add: w2_def)
  have a6: "resultQuiz ?sv (topic_topicId ?t1) w2 = (Inr False, w3)"
    unfolding w3_def w2_def w1_def w0_def
    by (simp add: client_simps orchestrator_simps school_def start_def)
  have a7: "attemptOneQuiz ?sv (topic_topicId ?t1) (topic_topicName ?t1)
      (console_log (Solving (topic_topicId ?t1)) w3) = Some (Inl network_error, w4)"
    unfolding w4_def w3_def w2_def w1_def w0_def
    by (simp add: client_simps prober_simps runner_simps orchestrator_simps start_def)
  from runner_failure_aborts_run [OF a1 a2 a3 a4 a5 a6 a7] a3 a4
  show ?thesis by (simp add: network_error_def w0_def)
qed





lemma console_line_frame:
  "creations (ConsoleLog l # evs) = creations evs"
  "writes (ConsoleLog l # evs) = writes evs"
  "status_queries (ConsoleLog l # evs) = status_queries evs"
  "submissions (ConsoleLog l # evs) = submissions evs"
  "tokens (ConsoleLog l # evs) = tokens evs"
  "skips (ConsoleLog (Already_done t) # evs) = t # skips evs"
  "skips (ConsoleLog (Solving t) # evs) = skips evs"
  "skips (ConsoleLog (Finished t) # evs) = skips evs"
  "skips (ConsoleLog Blank # evs) = skips evs"
  by (simp_all add: observation_defs)

text \<open>
  C9. The claim: for a unit of two eligible topics, one passed and one not, the
  orchestrator runs the quiz runner once and prints one skip. Here the topic that is not
  passed is listed first and creating its quiz is rejected: the run stops there, the
  passed topic is never queried and no skip is printed (no \<open>QuizResult\<close> for \<open>t2\<close> and no
  \<open>Already_done\<close> line in the trace).
\<close>

theorem one_run_one_skip_counterexample:
  "units_for (sim (school\<lparr>badges := [(''t2'', 1)], failing := [2]\<rparr>)) [''u1''] start
   = Some (Inl network_error,
       \<lparr>ACCESS_TOKEN = Some ''env'', logs = [],
        outside = \<lparr>saved = [], served = 3\<rparr>,
        trace =
          [GetTopicsUnit (Some ''env'') ''u1''
             (Inr [\<lparr>raw_id = ''t1'', raw_name = ''Intro to RL'', raw_contentFlag = True\<rparr>,
                   \<lparr>raw_id = ''t2'', raw_name = ''Bandits'', raw_contentFlag = True\<rparr>,
                   \<lparr>raw_id = ''t3'', raw_name = ''Notes'', raw_contentFlag = False\<rparr>]),
           ConsoleLog (Topic_line ''t1'' ''Intro to RL''),
           ConsoleLog (Topic_line ''t2'' ''Bandits''),
           QuizResult (Some ''env'') ''t1'' (Inr 0),
           ConsoleLog (Solving ''t1''),
           CreateQuiz (Some ''env'') ''t1'' (Inl network_error),
           ConsoleLog (Error_creating ''t1'' network_error)]\<rparr>)"
  by (simp add: client_simps prober_simps runner_simps orchestrator_simps start_def)

text \<open>
  C9, as the code has it. For a unit of two eligible topics, one passed and one not: when
  the passed topic is listed first and the quiz runner returns for the other, or when the
  topic that is not passed is listed first and the quiz runner returns for it without a
  failure, the orchestrator has run the quiz runner exactly once, for the topic that is
  not passed, and has printed exactly one skip, for the passed topic.
\<close>

theorem one_run_one_skip:
  "(getUnitTopics sv unit w = (Inr [passed_topic, open_topic], w1)
      \<and> resultQuiz sv (topic_topicId passed_topic) (print_topics [passed_topic, open_topic] w1)
          = (Inr True, w2)
      \<and> resultQuiz sv (topic_topicId open_topic)
            (console_log (Already_done (topic_topicId passed_topic)) w2)
          = (Inr False, w3)
      \<and> attemptOneQuiz sv (topic_topicId open_topic) (topic_topicName open_topic)
            (console_log (Solving (topic_topicId open_topic)) w3)
          = Some (result, w4)
    \<longrightarrow> (\<exists>outcome w'. units_for sv [unit] w = Some (outcome, w')
          \<and> creations (trace w') = creations (trace w) @ [topic_topicId open_topic]
          \<and> skips (trace w') = skips (trace w) @ [topic_topicId passed_topic]))
   \<and> (getUnitTopics sv unit w = (Inr [open_topic, passed_topic], w1)
      \<and> resultQuiz sv (topic_topicId open_topic) (print_topics [open_topic, passed_topic] w1)
          = (Inr False, w2)
      \<and> attemptOneQuiz sv (topic_topicId open_topic) (topic_topicName open_topic)
            (console_log (Solving (topic_topicId open_topic)) w2)
          = Some (Inr finished, w3)
      \<and> resultQuiz sv (topic_topicId passed_topic)
            (console_log Blank (console_log (Finished (topic_topicId open_topic)) w3))
          = (Inr True, w4)
    \<longrightarrow> (\<exists>w'. units_for sv [unit] w = Some (Inr (), w')
          \<and> creations (trace w') = creations (trace w) @ [topic_topicId open_topic]
          \<and> skips (trace w') = skips (trace w) @ [topic_topicId passed_topic]))"
proof (intro conjI impI; elim conjE)
  let ?p = "topic_topicId passed_topic" and ?u = "topic_topicId open_topic"
  assume l: "getUnitTopics sv unit w = (Inr [passed_topic, open_topic], w1)"
    and qp: "resultQuiz sv ?p (print_topics [passed_topic, open_topic] w1) = (Inr True, w2)"
    and qu: "resultQuiz sv ?u (console_log (Already_done ?p) w2) = (Inr False, w3)"
    and run: "attemptOneQuiz sv ?u (topic_topicName open_topic) (console_log (Solving ?u) w3)
          = Some (result, w4)"
  from getUnitTopics_trace [OF l] obtain e1 where e1: "trace w1 = trace w @ e1"
    "creations e1 = []" "skips e1 = []" by blast
  from print_topics_trace [of "[passed_topic, open_topic]" w1]
  obtain e2 where e2: "trace (print_topics [passed_topic, open_topic] w1) = trace w1 @ e2"
    "creations e2 = []" "skips e2 = []"
    by (auto simp: observation_defs)
  from resultQuiz_trace [OF qp] obtain e3 where e3:
    "trace w2 = trace (print_topics [passed_topic, open_topic] w1) @ e3"
    "creations e3 = []" "skips e3 = []" by blast
  from resultQuiz_trace [OF qu] obtain e4 where e4:
    "trace w3 = trace w2 @ ConsoleLog (Already_done ?p) # e4"
    "creations e4 = []" "skips e4 = []" by (auto simp: console_log_def emit_def)
  from attemptOneQuiz_trace [OF run] obtain e5 where e5:
    "trace w4 = trace w3 @ ConsoleLog (Solving ?u) # e5"
    "creations e5 = [?u]" "skips e5 = []" by (auto simp: console_log_def emit_def)
  have w4: "creations (trace w4) = creations (trace w) @ [?u]"
    "skips (trace w4) = skips (trace w) @ [?p]"
    using e1 e2 e3 e4 e5
    by (simp_all add: console_line_frame)
  show "\<exists>outcome w'. units_for sv [unit] w = Some (outcome, w')
          \<and> creations (trace w') = creations (trace w) @ [?u]
          \<and> skips (trace w') = skips (trace w) @ [?p]"
  proof (cases result)
    case (Inl error)
    with l qp qu run have "units_for sv [unit] w = Some (Inl error, w4)" by simp
    with w4 show ?thesis by blast
  next
    case (Inr finished)
    let ?w' = "console_log Blank (console_log (Finished ?u) w4)"
    from Inr l qp qu run have "units_for sv [unit] w = Some (Inr (), ?w')" by simp
    moreover from w4 have "creations (trace ?w') = creations (trace w) @ [?u]"
      "skips (trace ?w') = skips (trace w) @ [?p]"
      by (simp_all add: console_log_def emit_def console_line_frame)
    ultimately show ?thesis by blast
  qed
next
  let ?p = "topic_topicId passed_topic" and ?u = "topic_topicId open_topic"
  assume l: "getUnitTopics sv unit w = (Inr [open_topic, passed_topic], w1)"
    and qu: "resultQuiz sv ?u (print_topics [open_topic, passed_topic] w1) = (Inr False, w2)"
    and run: "attemptOneQuiz sv ?u (topic_topicName open_topic) (console_log (Solving ?u) w2)
          = Some (Inr finished, w3)"
    and qp: "resultQuiz sv ?p (console_log Blank (console_log (Finished ?u) w3)) = (Inr True, w4)"
  from getUnitTopics_trace [OF l] obtain e1 where e1: "trace w1 = trace w @ e1"
    "creations e1 = []" "skips e1 = []" by blast
  from print_topics_trace [of "[open_topic, passed_topic]" w1]
  obtain e2 where e2: "trace (print_topics [open_topic, passed_topic] w1) = trace w1 @ e2"
    "creations e2 = []" "skips e2 = []"
    by (auto simp: observation_defs)
  from resultQuiz_trace [OF qu] obtain e3 where e3:
    "trace w2 = trace (print_topics [open_topic, passed_topic] w1) @ e3"
    "creations e3 = []" "skips e3 = []" by blast
  from attemptOneQuiz_trace [OF run] obtain e4 where e4:
    "trace w3 = trace w2 @ ConsoleLog (Solving ?u) # e4"
    "creations e4 = [?u]" "skips e4 = []" by (auto simp: console_log_def emit_def)
  from resultQuiz_trace [OF qp] obtain e5 where e5:
    "trace w4 = trace w3 @ ConsoleLog (Finished ?u) # ConsoleLog Blank # e5"
    "creations e5 = []" "skips e5 = []" by (auto simp: console_log_def emit_def)
  let ?w' = "console_log (Already_done ?p) w4"
  from l qu run qp have "units_for sv [unit] w = Some (Inr (), ?w')" by simp
  moreover have "creations (trace ?w') = creations (trace w) @ [?u]"
    "skips (trace ?w') = skips (trace w) @ [?p]"
    using e1 e2 e3 e4 e5
    by (simp_all add: console_log_def emit_def console_line_frame)
  ultimately show "\<exists>w'. units_for sv [unit] w = Some (Inr (), w')
          \<and> creations (trace w') = creations (trace w) @ [?u]
          \<and> skips (trace w') = skips (trace w) @ [?p]"
    by blast
qed


theorem one_run_one_skip_witness:
  "map_option (\<lambda>y. (fst y, creations (trace (snd y)), skips (trace (snd y))))
     (units_for (sim (school\<lparr>badges := [(''t1'', 1)]\<rparr>)) [''u1''] start)
     = Some (Inr (), [''t2''], [''t1''])
   \<and> map_option (\<lambda>y. (fst y, creations (trace (snd y)), skips (trace (snd y))))
     (units_for (sim (school\<lparr>badges := [(''t2'', 1)]\<rparr>)) [''u1''] start)
     = Some (Inr (), [''t1''], [''t2''])"
proof
  let ?t1 = "\<lparr>topic_topicId = ''t1'', topic_topicName = ''Intro to RL''\<rparr>"
  let ?t2 = "\<lparr>topic_topicId = ''t2'', topic_topicName = ''Bandits''\<rparr>"
  have s: "trace start = []" by (simp add: start_def)
  have sanitize_Bandits: "sanitize ''Bandits'' = ''bandits''"
    by (simp add: sanitize_def is_alnum_def toLowerCase_def)
  show "map_option (\<lambda>y. (fst y, creations (trace (snd y)), skips (trace (snd y))))
     (units_for (sim (school\<lparr>badges := [(''t1'', 1)]\<rparr>)) [''u1''] start)
     = Some (Inr (), [''t2''], [''t1''])"
  proof -
    let ?sv = "sim (school\<lparr>badges := [(''t1'', 1)]\<rparr>)"
    define w1 where "w1 = snd (getUnitTopics ?sv ''u1'' start)"
    define w2 where "w2 = snd (resultQuiz ?sv ''t1'' (print_topics [?t1, ?t2] w1))"
    define w3 where "w3 = snd (resultQuiz ?sv ''t2'' (console_log (Already_done ''t1'') w2))"
    define w4 where "w4 = snd (the (attemptOneQuiz ?sv ''t2'' ''Bandits''
        (console_log (Solving ''t2'') w3)))"
    have l: "getUnitTopics ?sv ''u1'' start = (Inr [?t1, ?t2], w1)"
      unfolding w1_def by (simp add: client_simps orchestrator_simps school_def start_def)
    have qp: "resultQuiz ?sv (topic_topicId ?t1) (print_topics [?t1, ?t2] w1) = (Inr True, w2)"
      unfolding w2_def w1_def by (simp add: client_simps orchestrator_simps school_def start_def)
    have qu: "resultQuiz ?sv (topic_topicId ?t2)
        (console_log (Already_done (topic_topicId ?t1)) w2) = (Inr False, w3)"
      unfolding w3_def w2_def w1_def
      by (simp add: client_simps orchestrator_simps school_def start_def)
    have run: "attemptOneQuiz ?sv (topic_topicId ?t2) (topic_topicName ?t2)
        (console_log (Solving (topic_topicId ?t2)) w3) = Some (Inr (''z2'', 1), w4)"
      unfolding w4_def w3_def w2_def w1_def
      by (simp add: client_simps prober_simps runner_simps orchestrator_simps start_def
            sanitize_Bandits)
    have out: "map_option fst (units_for ?sv [''u1''] start) = Some (Inr ())"
      using l qp qu run by simp
    from one_run_one_skip [of ?sv "''u1''" start ?t1 ?t2 w1 w2 w3 "Inr (''z2'', 1)" w4] l qp qu run
    obtain outcome w' where "units_for ?sv [''u1''] start = Some (outcome, w')"
      "creations (trace w') = creations (trace start) @ [''t2'']"
      "skips (trace w') = skips (trace start) @ [''t1'']"
      by auto
    with out show ?thesis by (simp add: s)
  qed
  show "map_option (\<lambda>y. (fst y, creations (trace (snd y)), skips (trace (snd y))))
     (units_for (sim (school\<lparr>badges := [(''t2'', 1)]\<rparr>)) [''u1''] start)
     = Some (Inr (), [''t1''], [''t2''])"
  proof -
    let ?sv = "sim (school\<lparr>badges := [(''t2'', 1)]\<rparr>)"
    define w1 where "w1 = snd (getUnitTopics ?sv ''u1'' start)"
    define w2 where "w2 = snd (resultQuiz ?sv ''t1'' (print_topics [?t1, ?t2] w1))"
    define w3 where "w3 = snd (the (attemptOneQuiz ?sv ''t1'' ''Intro to RL''
        (console_log (Solving ''t1'') w2)))"
    define w4 where "w4 = snd (resultQuiz ?sv ''t2''
        (console_log Blank (console_log (Finished ''t1'') w3)))"
    have l: "getUnitTopics ?sv ''u1'' start = (Inr [?t1, ?t2], w1)"
      unfolding w1_def by (simp add: client_simps orchestrator_simps school_def start_def)
    have qu: "resultQuiz ?sv (topic_topicId ?t1) (print_topics [?t1, ?t2] w1) = (Inr False, w2)"
      unfolding w2_def w1_def by (simp add: client_simps orchestrator_simps school_def start_def)
    have run: "attemptOneQuiz ?sv (topic_topicId ?t1) (topic_topicName ?t1)
        (console_log (Solving (topic_topicId ?t1)) w2) = Some (Inr (''z1'', 2), w3)"
      unfolding w3_def w2_def w1_def
      by (simp add: client_simps prober_simps runner_simps orchestrator_simps start_def)
    have qp: "resultQuiz ?sv (topic_topicId ?t2)
        (console_log Blank (console_log (Finished (topic_topicId ?t1)) w3)) = (Inr True, w4)"
      unfolding w4_def w3_def w2_def w1_def
      by (simp add: client_simps prober_simps runner_simps orchestrator_simps start_def)
    from one_run_one_skip [of ?sv "''u1''" start ?t2 ?t1 w1 w2 w3 _ w4 "(''z1'', 2)"]
      l qu run qp
    obtain w' where "units_for ?sv [''u1''] start = Some (Inr (), w')"
      "creations (trace w') = creations (trace start) @ [''t1'']"
      "skips (trace w') = skips (trace start) @ [''t2'']"
      by auto
    then show ?thesis by (simp add: s)
  qed
qed

text \<open>
  C10. A request whose credential or unit identifier is missing (absent, or the empty
  string: the source tests the fields with \<open>!\<close>) is answered with the status 400 and
  leaves the process as it was: no remote call is issued and \<open>ACCESS_TOKEN\<close> is not
  replaced. When both are given, the handler replaces \<open>ACCESS_TOKEN\<close> by the credential of
  the request and then runs the loop over the units, which are at least one. The first
  remote call is the topics request of the first unit, and it carries the credential of
  the request, whether or not the run returns. When the run returns, every remote call
  of it carried that credential, and \<open>ACCESS_TOKEN\<close> still holds it.
\<close>

theorem credential_is_checked_then_replaced:
  "(falsy (body_accessToken req_body) \<or> falsy (body_unitId req_body)
    \<longrightarrow> post_root sv req_body w
        = Some (Response 400 (ErrorJson ''Missing accessToken or unitId in request data.''), w))
   \<and> (\<not> falsy (body_accessToken req_body) \<and> \<not> falsy (body_unitId req_body)
    \<longrightarrow> (\<exists>unitId unit rest listed evs.
          body_unitId req_body = Some unitId
          \<and> split CHR '' '' unitId = unit # rest
          \<and> post_root sv req_body w
            = (case units_for sv (unit # rest) (w\<lparr>ACCESS_TOKEN := body_accessToken req_body\<rparr>) of
                 None \<Rightarrow> None
               | Some (Inl error, w1) \<Rightarrow> Some (Response 500 (ErrorJson (message error)), w1)
               | Some (Inr u, w1) \<Rightarrow>
                   Some (Response 200 (CompleteJson (logs w1) ''Processing complete''), w1))
          \<and> trace (snd (getUnitTopics sv unit (w\<lparr>ACCESS_TOKEN := body_accessToken req_body\<rparr>)))
            = trace w @ GetTopicsUnit (body_accessToken req_body) unit listed # evs
          \<and> tokens evs = []))
   \<and> (\<not> falsy (body_accessToken req_body) \<and> \<not> falsy (body_unitId req_body)
      \<and> post_root sv req_body w = Some (response, w')
    \<longrightarrow> ACCESS_TOKEN w' = body_accessToken req_body
        \<and> (\<exists>evs. trace w' = trace w @ evs \<and> set (tokens evs) \<subseteq> {body_accessToken req_body}))"
proof -
  let ?w0 = "w\<lparr>ACCESS_TOKEN := body_accessToken req_body\<rparr>"
  have missing: "post_root sv req_body w
        = Some (Response 400 (ErrorJson ''Missing accessToken or unitId in request data.''), w)"
    if "falsy (body_accessToken req_body) \<or> falsy (body_unitId req_body)"
    using that by (simp add: post_root_def)
  have given: "\<exists>unitId unit rest listed evs.
          body_unitId req_body = Some unitId
          \<and> split CHR '' '' unitId = unit # rest
          \<and> post_root sv req_body w
            = (case units_for sv (unit # rest) ?w0 of
                 None \<Rightarrow> None
               | Some (Inl error, w1) \<Rightarrow> Some (Response 500 (ErrorJson (message error)), w1)
               | Some (Inr u, w1) \<Rightarrow>
                   Some (Response 200 (CompleteJson (logs w1) ''Processing complete''), w1))
          \<and> trace (snd (getUnitTopics sv unit ?w0))
            = trace w @ GetTopicsUnit (body_accessToken req_body) unit listed # evs
          \<and> tokens evs = []"
    if ok: "\<not> falsy (body_accessToken req_body)" "\<not> falsy (body_unitId req_body)"
  proof -
    from ok obtain u where u: "body_unitId req_body = Some u" by (auto simp: falsy_def)
    obtain unit rest where s: "split CHR '' '' u = unit # rest"
      using split_not_Nil [of "CHR '' ''" u] by (cases "split CHR '' '' u") auto
    from ok u s have p: "post_root sv req_body w
            = (case units_for sv (unit # rest) ?w0 of
                 None \<Rightarrow> None
               | Some (Inl error, w1) \<Rightarrow> Some (Response 500 (ErrorJson (message error)), w1)
               | Some (Inr u, w1) \<Rightarrow>
                   Some (Response 200 (CompleteJson (logs w1) ''Processing complete''), w1))"
      by (simp add: post_root_def Let_def)
    have "\<exists>listed evs. trace (snd (getUnitTopics sv unit ?w0))
            = trace w @ GetTopicsUnit (body_accessToken req_body) unit listed # evs
          \<and> tokens evs = []"
      by (auto simp: getUnitTopics_def Let_def emit_def console_log_def tokens_def
            split: prod.splits sum.splits)
    with u s p show ?thesis by blast
  qed
  have returned: "ACCESS_TOKEN w' = body_accessToken req_body
        \<and> (\<exists>evs. trace w' = trace w @ evs \<and> set (tokens evs) \<subseteq> {body_accessToken req_body})"
    if ok: "\<not> falsy (body_accessToken req_body)" "\<not> falsy (body_unitId req_body)"
      and run: "post_root sv req_body w = Some (response, w')"
  proof -
    from ok obtain u where u: "body_unitId req_body = Some u" by (auto simp: falsy_def)
    from ok run u obtain res where "units_for sv (split CHR '' '' u) ?w0 = Some (res, w')"
      by (auto simp: post_root_def Let_def split: option.splits sum.splits)
    from units_for_tokens [OF this] show ?thesis by auto
  qed
  from missing given returned show ?thesis by blast
qed

text \<open>
  Three requests. One without a unit identifier and one whose credential is the empty
  string are answered with the status 400, the world as it was. One with both fields, on a
  unit whose two topics are passed: the first remote call is the topics request with the
  credential of the request, the run returns with the status 200, and its three remote
  calls carried that credential.
\<close>

theorem credential_is_checked_then_replaced_witness:
  "falsy (body_unitId \<lparr>body_accessToken = Some ''tok'', body_unitId = None\<rparr>)
   \<and> post_root (sim school) \<lparr>body_accessToken = Some ''tok'', body_unitId = None\<rparr> start
     = Some (Response 400 (ErrorJson ''Missing accessToken or unitId in request data.''), start)
   \<and> falsy (body_accessToken \<lparr>body_accessToken = Some [], body_unitId = Some ''u1''\<rparr>)
   \<and> post_root (sim school) \<lparr>body_accessToken = Some [], body_unitId = Some ''u1''\<rparr> start
     = Some (Response 400 (ErrorJson ''Missing accessToken or unitId in request data.''), start)
   \<and> ACCESS_TOKEN start = Some ''env''
   \<and> split CHR '' '' ''u1'' = [''u1'']
   \<and> (\<exists>listed evs.
        trace (snd (getUnitTopics (sim (school\<lparr>badges := [(''t1'', 1), (''t2'', 1)]\<rparr>)) ''u1''
                 (start\<lparr>ACCESS_TOKEN := Some ''tok''\<rparr>)))
          = trace start @ GetTopicsUnit (Some ''tok'') ''u1'' listed # evs
        \<and> tokens evs = [])
   \<and> map_option (\<lambda>y. (status (fst y), ACCESS_TOKEN (snd y), tokens (trace (snd y))))
       (post_root (sim (school\<lparr>badges := [(''t1'', 1), (''t2'', 1)]\<rparr>))
          \<lparr>body_accessToken = Some ''tok'', body_unitId = Some ''u1''\<rparr> start)
     = Some (200, Some ''tok'', [Some ''tok'', Some ''tok'', Some ''tok''])
   \<and> (\<exists>response w' evs.
        post_root (sim (school\<lparr>badges := [(''t1'', 1), (''t2'', 1)]\<rparr>))
          \<lparr>body_accessToken = Some ''tok'', body_unitId = Some ''u1''\<rparr> start = Some (response, w')
        \<and> ACCESS_TOKEN w' = Some ''tok''
        \<and> trace w' = trace start @ evs \<and> set (tokens evs) \<subseteq> {Some ''tok''})"
proof -
  let ?missing = "\<lparr>body_accessToken = Some ''tok'', body_unitId = None\<rparr>"
  let ?empty = "\<lparr>body_accessToken = Some [], body_unitId = Some ''u1''\<rparr>"
  let ?given = "\<lparr>body_accessToken = Some ''tok'', body_unitId = Some ''u1''\<rparr>"
  let ?sv = "sim (school\<lparr>badges := [(''t1'', 1), (''t2'', 1)]\<rparr>)"
  define w' where "w' = snd (the (post_root ?sv ?given start))"
  note checked = credential_is_checked_then_replaced
  have f: "falsy (body_unitId ?missing)" by (simp add: falsy_def)
  then have "falsy (body_accessToken ?missing) \<or> falsy (body_unitId ?missing)" ..
  from checked [of ?missing "sim school" start, THEN conjunct1, rule_format, OF this]
  have rejected: "post_root (sim school) ?missing start
     = Some (Response 400 (ErrorJson ''Missing accessToken or unitId in request data.''), start)" .
  have e: "falsy (body_accessToken ?empty)" by (simp add: falsy_def)
  then have "falsy (body_accessToken ?empty) \<or> falsy (body_unitId ?empty)" ..
  from checked [of ?empty "sim school" start, THEN conjunct1, rule_format, OF this]
  have rejected': "post_root (sim school) ?empty start
     = Some (Response 400 (ErrorJson ''Missing accessToken or unitId in request data.''), start)" .
  have env: "ACCESS_TOKEN start = Some ''env''" by (simp add: start_def)
  have ok: "\<not> falsy (body_accessToken ?given) \<and> \<not> falsy (body_unitId ?given)"
    by (simp add: falsy_def)
  have s: "split CHR '' '' ''u1'' = [''u1'']" by simp
  from checked [of ?given ?sv start, THEN conjunct2, THEN conjunct1, rule_format, OF ok]
  obtain unitId unit rest listed evs where
    "body_unitId ?given = Some unitId" "split CHR '' '' unitId = unit # rest"
    "trace (snd (getUnitTopics ?sv unit (start\<lparr>ACCESS_TOKEN := body_accessToken ?given\<rparr>)))
       = trace start @ GetTopicsUnit (body_accessToken ?given) unit listed # evs"
    "tokens evs = []"
    by blast
  then have first: "\<exists>listed evs.
        trace (snd (getUnitTopics ?sv ''u1'' (start\<lparr>ACCESS_TOKEN := Some ''tok''\<rparr>)))
          = trace start @ GetTopicsUnit (Some ''tok'') ''u1'' listed # evs
        \<and> tokens evs = []"
    by auto
  have run: "post_root ?sv ?given start = Some (Response 200 (CompleteJson [] ''Processing complete''), w')"
    unfolding w'_def
    by (simp add: client_simps prober_simps runner_simps orchestrator_simps start_def)
  have seen: "map_option (\<lambda>y. (status (fst y), ACCESS_TOKEN (snd y), tokens (trace (snd y))))
       (post_root ?sv ?given start) = Some (200, Some ''tok'', [Some ''tok'', Some ''tok'', Some ''tok''])"
    by (simp add: client_simps prober_simps runner_simps orchestrator_simps start_def tokens_def)
  from ok run have "\<not> falsy (body_accessToken ?given) \<and> \<not> falsy (body_unitId ?given)
      \<and> post_root ?sv ?given start = Some (Response 200 (CompleteJson [] ''Processing complete''), w')"
    by simp
  from checked [of ?given ?sv start _ w', THEN conjunct2, THEN conjunct2, rule_format, OF this]
  have "ACCESS_TOKEN w' = Some ''tok''
        \<and> (\<exists>evs. trace w' = trace start @ evs \<and> set (tokens evs) \<subseteq> {Some ''tok''})"
    by simp
  with run have given: "\<exists>response w' evs.
        post_root ?sv ?given start = Some (response, w')
        \<and> ACCESS_TOKEN w' = Some ''tok''
        \<and> trace w' = trace start @ evs \<and> set (tokens evs) \<subseteq> {Some ''tok''}"
    by blast
  from f rejected e rejected' env s first seen given show ?thesis
    by - (intro conjI; assumption)
qed

end
